theory Spec2Isabelle
  imports Complex_Main
begin

section \<open>Data model of the VCS constraint core\<close>

text \<open>
  The routines of \<^verbatim>\<open>vcs_elem.cpp\<close> and \<^verbatim>\<open>vcs_elem_rearrange.cpp\<close> are member
  functions of \<^verbatim>\<open>VCS_SOLVE\<close>; they read and write the members of the problem
  instance. The instance is a record, every routine takes it and returns the updated one.

  The arrays are indexed by raw integers without any bounds check, so an array is a
  store from index to value (a function on \<open>nat\<close>). A \<^verbatim>\<open>double\<close> is a
  \<open>real\<close>: the development is about the arithmetic the code writes down. Where a
  statement turns on the rounding of that arithmetic, the evaluator is given a second time
  with every operation rounded (see the section on the evaluator).

  The integer tags come from a header that is not part of the sources; the tags the
  routines compare against are the constructors below.
\<close>

datatype species_unknown_type =
  VCS_SPECIES_TYPE_MOLNUM | VCS_SPECIES_TYPE_INTERFACIALVOLTAGE

datatype elem_type =
  VCS_ELEM_TYPE_ABSPOS | VCS_ELEM_TYPE_ELECTRONCHARGE |
  VCS_ELEM_TYPE_CHARGENEUTRALITY | VCS_ELEM_TYPE_OTHERCONSTRAINT

datatype species_status =
  VCS_SPECIES_ACTIVE | VCS_SPECIES_ZEROEDSS | VCS_SPECIES_ZEROEDMS

record vcs_VolPhase =
  nElemConstraints :: nat
  ElGlobalIndex :: "nat \<Rightarrow> nat"

record vcs_state =
  m_numElemConstraints :: nat
  m_numComponents :: nat
  m_numSpeciesTot :: nat
  m_numSpeciesRdc :: nat
  NPhase :: nat
  ga :: "nat \<Rightarrow> real"
  gai :: "nat \<Rightarrow> real"
  soln :: "nat \<Rightarrow> real"
  FormulaMatrix :: "nat \<Rightarrow> nat \<Rightarrow> real"
  SpeciesUnknownType :: "nat \<Rightarrow> species_unknown_type"
  PhaseID :: "nat \<Rightarrow> nat"
  SSPhase :: "nat \<Rightarrow> int"
  spStatus :: "nat \<Rightarrow> species_status"
  m_elType :: "nat \<Rightarrow> elem_type"
  ElActive :: "nat \<Rightarrow> int"
  IndEl :: "nat \<Rightarrow> int"
  ElName :: "nat \<Rightarrow> string"
  VPhaseList :: "nat \<Rightarrow> vcs_VolPhase"
  TPhMoles :: "nat \<Rightarrow> real"

section \<open>The abundance evaluator\<close>

text \<open>
  \<^verbatim>\<open>vcs_elab\<close>: for every constraint \<open>j\<close>, \<open>ga[j]\<close> is set to zero and then
  the products \<open>FormulaMatrix[j][i] * soln[i]\<close> are added for the species that are not
  interfacial voltages, in the order of the species. \<open>elab_add j i\<close> is the body of the
  inner loop, \<open>elab_row j\<close> the body of the outer one.
\<close>

definition elab_add :: "nat \<Rightarrow> nat \<Rightarrow> vcs_state \<Rightarrow> vcs_state" where
  "elab_add j i s =
     (if SpeciesUnknownType s i \<noteq> VCS_SPECIES_TYPE_INTERFACIALVOLTAGE
      then s\<lparr>ga := (ga s)(j := ga s j + FormulaMatrix s j i * soln s i)\<rparr>
      else s)"

definition elab_row :: "nat \<Rightarrow> vcs_state \<Rightarrow> vcs_state" where
  "elab_row j s = fold (elab_add j) [0..<m_numSpeciesTot s] (s\<lparr>ga := (ga s)(j := 0)\<rparr>)"

definition vcs_elab :: "vcs_state \<Rightarrow> vcs_state" where
  "vcs_elab s = fold elab_row [0..<m_numElemConstraints s] s"

text \<open>
  The arithmetic of the code is binary64 arithmetic: every product and every sum is the
  exact result rounded to the nearest binary64 number, a tie going to the even
  significand. \<open>binary64 x\<close> is that rounding of the real \<open>x\<close>, to 53 significant
  bits (overflow, subnormal numbers and evaluation in extended precision are not
  modelled); \<open>round_even\<close> rounds to the nearest integer, a tie to the even one.

  \<open>elab_add_fp rnd\<close>, \<open>elab_row_fp rnd\<close> and \<open>vcs_elab_fp rnd\<close> are the loops of
  \<^verbatim>\<open>vcs_elab\<close> with every operation rounded by \<open>rnd\<close>: with \<open>binary64\<close> the
  routine as it runs, with the identity the routine above.
\<close>

definition round_even :: "real \<Rightarrow> int" where
  "round_even q =
     (let f = \<lfloor>q\<rfloor>; r = q - of_int f
      in if r < 1 / 2 then f else if 1 / 2 < r then f + 1 else if even f then f else f + 1)"

definition binary64 :: "real \<Rightarrow> real" where
  "binary64 x =
     (if x = 0 then 0
      else let u = 2 powr (of_int \<lfloor>log 2 \<bar>x\<bar>\<rfloor> - 52)
           in u * of_int (round_even (x / u)))"

definition elab_add_fp :: "(real \<Rightarrow> real) \<Rightarrow> nat \<Rightarrow> nat \<Rightarrow> vcs_state \<Rightarrow> vcs_state" where
  "elab_add_fp rnd j i s =
     (if SpeciesUnknownType s i \<noteq> VCS_SPECIES_TYPE_INTERFACIALVOLTAGE
      then s\<lparr>ga := (ga s)(j := rnd (ga s j + rnd (FormulaMatrix s j i * soln s i)))\<rparr>
      else s)"

definition elab_row_fp :: "(real \<Rightarrow> real) \<Rightarrow> nat \<Rightarrow> vcs_state \<Rightarrow> vcs_state" where
  "elab_row_fp rnd j s =
     fold (elab_add_fp rnd j) [0..<m_numSpeciesTot s] (s\<lparr>ga := (ga s)(j := 0)\<rparr>)"

definition vcs_elab_fp :: "(real \<Rightarrow> real) \<Rightarrow> vcs_state \<Rightarrow> vcs_state" where
  "vcs_elab_fp rnd s = fold (elab_row_fp rnd) [0..<m_numElemConstraints s] s"

text \<open>
  \<^verbatim>\<open>vcs_elabPhase\<close>: the same sum restricted to the species of phase \<open>iphase\<close>,
  written to the caller's array \<open>elemAbundPhase\<close>; the problem instance is only read.
  Every operation is rounded by \<open>rnd\<close>.
\<close>

definition elabPhase_add_fp ::
  "(real \<Rightarrow> real) \<Rightarrow> vcs_state \<Rightarrow> nat \<Rightarrow> nat \<Rightarrow> nat \<Rightarrow> (nat \<Rightarrow> real) \<Rightarrow> (nat \<Rightarrow> real)" where
  "elabPhase_add_fp rnd s iphase j i e =
     (if SpeciesUnknownType s i \<noteq> VCS_SPECIES_TYPE_INTERFACIALVOLTAGE
      then (if PhaseID s i = iphase
            then e(j := rnd (e j + rnd (FormulaMatrix s j i * soln s i))) else e)
      else e)"

definition elabPhase_row_fp ::
  "(real \<Rightarrow> real) \<Rightarrow> vcs_state \<Rightarrow> nat \<Rightarrow> nat \<Rightarrow> (nat \<Rightarrow> real) \<Rightarrow> (nat \<Rightarrow> real)" where
  "elabPhase_row_fp rnd s iphase j e =
     fold (elabPhase_add_fp rnd s iphase j) [0..<m_numSpeciesTot s] (e(j := 0))"

definition vcs_elabPhase_fp ::
  "(real \<Rightarrow> real) \<Rightarrow> vcs_state \<Rightarrow> nat \<Rightarrow> (nat \<Rightarrow> real) \<Rightarrow> (nat \<Rightarrow> real)" where
  "vcs_elabPhase_fp rnd s iphase elemAbundPhase =
     fold (elabPhase_row_fp rnd s iphase) [0..<m_numElemConstraints s] elemAbundPhase"

text \<open>
  \<open>fp_sum rnd p sel n\<close>: the value an accumulator that starts at zero holds after the
  products \<open>p k\<close> of the selected \<open>k < n\<close> have been added to it in turn, each
  product and each sum rounded by \<open>rnd\<close>.
\<close>

primrec fp_sum :: "(real \<Rightarrow> real) \<Rightarrow> (nat \<Rightarrow> real) \<Rightarrow> (nat \<Rightarrow> bool) \<Rightarrow> nat \<Rightarrow> real" where
  "fp_sum rnd p sel 0 = 0"
| "fp_sum rnd p sel (Suc n) =
     (if sel n then rnd (fp_sum rnd p sel n + rnd (p n)) else fp_sum rnd p sel n)"

text \<open>
  The sums the evaluator is to compute: \<open>abundance s j\<close> over the species that are not
  voltages, \<open>abundancePhase s iphase j\<close> over those of them that belong to phase
  \<open>iphase\<close>.
\<close>

definition nonvolt :: "vcs_state \<Rightarrow> nat \<Rightarrow> bool" where
  "nonvolt s k = (SpeciesUnknownType s k \<noteq> VCS_SPECIES_TYPE_INTERFACIALVOLTAGE)"

definition abundance :: "vcs_state \<Rightarrow> nat \<Rightarrow> real" where
  "abundance s j =
     (\<Sum>k \<in> {k. k < m_numSpeciesTot s \<and> nonvolt s k}. FormulaMatrix s j k * soln s k)"

definition abundancePhase :: "vcs_state \<Rightarrow> nat \<Rightarrow> nat \<Rightarrow> real" where
  "abundancePhase s iphase j =
     (\<Sum>k \<in> {k. k < m_numSpeciesTot s \<and> nonvolt s k \<and> PhaseID s k = iphase}.
        FormulaMatrix s j k * soln s k)"

section \<open>The compliance checker\<close>

text \<open>
  The routines can leave by two roads other than \<^verbatim>\<open>return\<close>: the assertion macro
  \<^verbatim>\<open>AssertThrowVCS\<close> and \<^verbatim>\<open>exit(-1)\<close>. Both are values of \<open>vcs_error\<close>.
  The integer a routine returns is either one of the header's status macros or a literal.
\<close>

datatype vcs_error = VCS_ASSERT_THROWN | VCS_EXIT

datatype vcs_status = VCS_SUCCESS | VCS_FAILED_CONVERGENCE | Retn int

text \<open>
  \<^verbatim>\<open>vcs_elabcheck\<close>. The cutoff \<^verbatim>\<open>VCS_DELETE_MINORSPECIES_CUTOFF\<close> is a macro of a
  header that is not part of the sources; it is the parameter \<open>cutoff\<close>.
  \<open>elabcheck_scan\<close> is the body of the loop over the species of one row; it carries
  \<open>(scale, numNonZero, multisign)\<close>. \<open>elabcheck_loop\<close> is the loop over the
  constraints, which returns from inside.
\<close>

definition elabcheck_scan ::
  "vcs_state \<Rightarrow> nat \<Rightarrow> nat \<Rightarrow> real \<times> nat \<times> bool \<Rightarrow> real \<times> nat \<times> bool" where
  "elabcheck_scan s i kspec = (\<lambda>(scale, numNonZero, multisign).
     let eval = FormulaMatrix s i kspec;
         multisign = (if eval < 0 then True else multisign)
     in if eval \<noteq> 0
        then (max scale \<bar>eval * soln s kspec\<bar>, numNonZero + 1, multisign)
        else (scale, numNonZero, multisign))"

fun elabcheck_loop :: "real \<Rightarrow> vcs_state \<Rightarrow> nat list \<Rightarrow> vcs_error + bool" where
  "elabcheck_loop cutoff s [] = Inr True"
| "elabcheck_loop cutoff s (i # rest) =
     (if \<bar>ga s i - gai s i\<bar> > \<bar>gai s i\<bar> * (1 / 10 ^ 12) then
        (if m_elType s i = VCS_ELEM_TYPE_CHARGENEUTRALITY \<and> gai s i \<noteq> 0
         then Inl VCS_ASSERT_THROWN
         else if gai s i = 0 \<or> m_elType s i = VCS_ELEM_TYPE_ELECTRONCHARGE then
           (case fold (elabcheck_scan s i) [0..<m_numSpeciesTot s] (cutoff, 0, False) of
              (scale, numNonZero, multisign) \<Rightarrow>
                if multisign
                then (if \<bar>ga s i - gai s i\<bar> > (1 / 10 ^ 11) * scale
                      then Inr False else elabcheck_loop cutoff s rest)
                else (if \<bar>ga s i - gai s i\<bar> > cutoff
                      then Inr False else elabcheck_loop cutoff s rest))
         else (if m_elType s i = VCS_ELEM_TYPE_ABSPOS then Inr False else Inr False))
      else elabcheck_loop cutoff s rest)"

definition vcs_elabcheck :: "real \<Rightarrow> vcs_state \<Rightarrow> int \<Rightarrow> vcs_error + bool" where
  "vcs_elabcheck cutoff s ibound =
     (let top = (if ibound \<noteq> 0 then m_numElemConstraints s else m_numComponents s)
      in elabcheck_loop cutoff s [0..<top])"

section \<open>Collaborators of the corrector\<close>

text \<open>
  Modelled from the spec: \<^verbatim>\<open>vcs_tmoles\<close> is called by the corrector but defined in a
  file that is not part of the sources. The spec: phase totals are "derived mole-number
  sums per phase; recomputed whenever mole numbers change".
\<close>

definition vcs_tmoles :: "vcs_state \<Rightarrow> vcs_state" where
  "vcs_tmoles s =
     s\<lparr>TPhMoles := (\<lambda>iph. \<Sum>k<m_numSpeciesTot s.
         if SpeciesUnknownType s k \<noteq> VCS_SPECIES_TYPE_INTERFACIALVOLTAGE \<and> PhaseID s k = iph
         then soln s k else 0)\<rparr>"

text \<open>
  The linear solver \<^verbatim>\<open>vcsUtil_mlequ(aa, idem, n, x, m)\<close> and the reinsertion
  \<^verbatim>\<open>vcs_reinsert_deleted(kspec)\<close> are not part of the sources either. They are
  parameters of the corrector: the solver gives its status and the new contents of
  \<open>x\<close>, the reinsertion a new problem instance. Models of both, from the spec, are
  given with the example problems.
\<close>

type_synonym mlequ_fn =
  "(nat \<Rightarrow> real) \<Rightarrow> nat \<Rightarrow> nat \<Rightarrow> (nat \<Rightarrow> real) \<Rightarrow> nat \<Rightarrow> int \<times> (nat \<Rightarrow> real)"

type_synonym reinsert_fn = "nat \<Rightarrow> vcs_state \<Rightarrow> vcs_state"

section \<open>The corrector\<close>

subsection \<open>Stage 1: rows with a single entry\<close>

text \<open>
  \<open>elcorr_count\<close>: the loop that counts the nonzero entries of row \<open>i\<close> and
  looks for a negative one, over the species that are not voltages; it carries
  \<open>(numNonZero, multisign)\<close>.
\<close>

definition elcorr_count :: "vcs_state \<Rightarrow> nat \<Rightarrow> nat \<Rightarrow> nat \<times> bool \<Rightarrow> nat \<times> bool" where
  "elcorr_count s i kspec = (\<lambda>(numNonZero, multisign).
     if SpeciesUnknownType s kspec \<noteq> VCS_SPECIES_TYPE_INTERFACIALVOLTAGE then
       (let eval = FormulaMatrix s i kspec
        in (if eval \<noteq> 0 then numNonZero + 1 else numNonZero,
            if eval < 0 then True else multisign))
     else (numNonZero, multisign))"

text \<open>\<open>elcorr_single\<close>: the loop of the branch \<^verbatim>\<open>numNonZero < 2\<close>.\<close>

definition elcorr_single :: "nat \<Rightarrow> nat \<Rightarrow> vcs_state \<times> bool \<Rightarrow> vcs_state \<times> bool" where
  "elcorr_single i kspec = (\<lambda>(s, changed).
     if SpeciesUnknownType s kspec \<noteq> VCS_SPECIES_TYPE_INTERFACIALVOLTAGE then
       (let eval = FormulaMatrix s i kspec
        in if eval > 0
           then (s\<lparr>soln := (soln s)(kspec := gai s i / eval)\<rparr>, True)
           else (s, changed))
     else (s, changed))"

text \<open>
  \<open>elcorr_compcount\<close>: the loop over the components that carries
  \<open>(compID, numCompNonZero)\<close>; \<open>compID\<close> starts at \<open>-1\<close>.
  \<open>elcorr_compsolve\<close>: the loop over the species that are not components; the
  assignment to \<^verbatim>\<open>soln[compID]\<close> stands inside the loop, after the test on the
  species' type.
\<close>

definition elcorr_compcount :: "vcs_state \<Rightarrow> nat \<Rightarrow> nat \<Rightarrow> int \<times> nat \<Rightarrow> int \<times> nat" where
  "elcorr_compcount s i kspec = (\<lambda>(compID, numCompNonZero).
     if SpeciesUnknownType s kspec \<noteq> VCS_SPECIES_TYPE_INTERFACIALVOLTAGE then
       (let eval = FormulaMatrix s i kspec
        in if eval > 0 then (int kspec, numCompNonZero + 1) else (compID, numCompNonZero))
     else (compID, numCompNonZero))"

definition elcorr_compsolve ::
  "nat \<Rightarrow> nat \<Rightarrow> nat \<Rightarrow> real \<times> vcs_state \<times> bool \<Rightarrow> real \<times> vcs_state \<times> bool" where
  "elcorr_compsolve i compID kspec = (\<lambda>(diff, s, changed).
     let diff = (if SpeciesUnknownType s kspec \<noteq> VCS_SPECIES_TYPE_INTERFACIALVOLTAGE
                 then diff - FormulaMatrix s i kspec * soln s kspec else diff)
     in (diff, s\<lparr>soln := (soln s)(compID := max 0 (diff / FormulaMatrix s i compID))\<rparr>, True))"

definition elcorr_stage1_row :: "nat \<Rightarrow> vcs_state \<times> bool \<Rightarrow> vcs_state \<times> bool" where
  "elcorr_stage1_row i = (\<lambda>(s, changed).
     case fold (elcorr_count s i) [0..<m_numSpeciesTot s] (0, False) of
       (numNonZero, multisign) \<Rightarrow>
         if \<not> multisign then
           (if numNonZero < 2
            then fold (elcorr_single i) [0..<m_numSpeciesTot s] (s, changed)
            else
              (case fold (elcorr_compcount s i) [0..<m_numComponents s] (- 1, 0) of
                 (compID, numCompNonZero) \<Rightarrow>
                   if numCompNonZero = 1 then
                     (case fold (elcorr_compsolve i (nat compID))
                             [m_numComponents s..<m_numSpeciesTot s] (gai s i, s, changed) of
                        (diff, s', changed') \<Rightarrow> (s', changed'))
                   else (s, changed)))
         else (s, changed))"

definition elcorr_stage1 :: "vcs_state \<Rightarrow> vcs_state" where
  "elcorr_stage1 s =
     (case fold elcorr_stage1_row [0..<m_numElemConstraints s] (s, False) of
        (s', changed) \<Rightarrow> if changed then vcs_elab s' else s')"

subsection \<open>Stage 2: upper bounds from the constraints of type ABSPOS\<close>

definition elcorr_bound ::
  "real \<Rightarrow> nat \<Rightarrow> nat \<Rightarrow> vcs_state \<times> bool \<Rightarrow> vcs_state \<times> bool" where
  "elcorr_bound cutoff i kspec = (\<lambda>(s, changed).
     if SpeciesUnknownType s kspec \<noteq> VCS_SPECIES_TYPE_INTERFACIALVOLTAGE then
       (let atomComp = FormulaMatrix s i kspec in
        if atomComp > 0 then
          (let maxPermissible = gai s i / atomComp in
           if soln s kspec > maxPermissible then
             (let s1 = s\<lparr>soln := (soln s)(kspec := maxPermissible)\<rparr> in
              if soln s1 kspec < cutoff then
                (let s2 = s1\<lparr>soln := (soln s1)(kspec := 0)\<rparr> in
                 if SSPhase s2 kspec \<noteq> 0
                 then (s2\<lparr>spStatus := (spStatus s2)(kspec := VCS_SPECIES_ZEROEDSS)\<rparr>, True)
                 else (s2\<lparr>spStatus := (spStatus s2)(kspec := VCS_SPECIES_ZEROEDMS)\<rparr>, True))
              else (s1, True))
           else (s, changed))
        else (s, changed))
     else (s, changed))"

definition elcorr_bound_row :: "real \<Rightarrow> nat \<Rightarrow> vcs_state \<times> bool \<Rightarrow> vcs_state \<times> bool" where
  "elcorr_bound_row cutoff i = (\<lambda>(s, changed).
     if m_elType s i = VCS_ELEM_TYPE_ABSPOS
     then fold (elcorr_bound cutoff i) [0..<m_numSpeciesTot s] (s, changed)
     else (s, changed))"

definition elcorr_stage2 :: "real \<Rightarrow> vcs_state \<Rightarrow> vcs_state" where
  "elcorr_stage2 cutoff s =
     (case fold (elcorr_bound_row cutoff) [0..<m_numElemConstraints s] (s, False) of
        (s', changed) \<Rightarrow> if changed then vcs_elab s' else s')"

subsection \<open>Stage 3: the linear correction over the components\<close>

definition elcorr_fill :: "vcs_state \<Rightarrow> nat \<Rightarrow> nat \<Rightarrow> (nat \<Rightarrow> real) \<Rightarrow> (nat \<Rightarrow> real)" where
  "elcorr_fill s i j aa = aa(j + i * m_numElemConstraints s := FormulaMatrix s j i)"

definition elcorr_build ::
  "vcs_state \<Rightarrow> nat \<Rightarrow> (nat \<Rightarrow> real) \<times> (nat \<Rightarrow> real) \<times> int
     \<Rightarrow> (nat \<Rightarrow> real) \<times> (nat \<Rightarrow> real) \<times> int" where
  "elcorr_build s i = (\<lambda>(aa, x, retn).
     let x = x(i := ga s i - gai s i);
         retn = (if \<bar>x i\<bar> > 1 / 10 ^ 13 then 1 else retn)
     in (fold (elcorr_fill s i) [0..<m_numComponents s] aa, x, retn))"

definition elcorr_par :: "vcs_state \<Rightarrow> (nat \<Rightarrow> real) \<Rightarrow> nat \<Rightarrow> real \<Rightarrow> real" where
  "elcorr_par s x i par =
     (if soln s i > 0
      then (let xx = - x i / soln s i in if par < xx then xx else par)
      else par)"

definition elcorr_damped :: "real \<Rightarrow> (nat \<Rightarrow> real) \<Rightarrow> nat \<Rightarrow> vcs_state \<Rightarrow> vcs_state" where
  "elcorr_damped par x i s =
     (let tmp = soln s i + par * x i in
      if tmp > 0 then s\<lparr>soln := (soln s)(i := tmp)\<rparr>
      else if SSPhase s i \<noteq> 0 then s\<lparr>soln := (soln s)(i := 0)\<rparr>
      else s\<lparr>soln := (soln s)(i := soln s i * (1 / 10 ^ 4))\<rparr>)"

definition elcorr_full :: "(nat \<Rightarrow> real) \<Rightarrow> nat \<Rightarrow> vcs_state \<Rightarrow> vcs_state" where
  "elcorr_full x i s =
     (let tmp = soln s i + x i in
      if tmp > 0 then s\<lparr>soln := (soln s)(i := tmp)\<rparr>
      else if SSPhase s i \<noteq> 0 then s\<lparr>soln := (soln s)(i := 0)\<rparr>
      else s\<lparr>soln := (soln s)(i := soln s i * (1 / 10 ^ 4))\<rparr>)"

text \<open>
  \<open>elcorr_stage3\<close> is \<open>None\<close> when the solver reports status 1 (the routine then
  returns \<^verbatim>\<open>VCS_FAILED_CONVERGENCE\<close>), otherwise the value of \<^verbatim>\<open>retn\<close> and
  the problem instance after the step, \<^verbatim>\<open>vcs_elab\<close> and \<^verbatim>\<open>vcs_tmoles\<close>.
\<close>

definition elcorr_stage3 ::
  "mlequ_fn \<Rightarrow> vcs_state \<Rightarrow> (nat \<Rightarrow> real) \<Rightarrow> (nat \<Rightarrow> real) \<Rightarrow> (int \<times> vcs_state) option" where
  "elcorr_stage3 mlequ s aa x =
     (case fold (elcorr_build s) [0..<m_numComponents s] (aa, x, 0) of
        (aa1, x1, retn) \<Rightarrow>
          (case mlequ aa1 (m_numElemConstraints s) (m_numComponents s) x1 1 of
             (status, x2) \<Rightarrow>
               if status = 1 then None
               else
                 (let par0 = fold (elcorr_par s x2) [0..<m_numComponents s] (1 / 2);
                      par1 = (if par0 > 100 then 100 else par0);
                      par = 1 / par1
                  in if par < 1 \<and> par > 0
                     then Some (2, vcs_tmoles (vcs_elab
                            (fold (elcorr_damped (par * (9999 / 10000)) x2)
                               [0..<m_numComponents s] s)))
                     else Some (retn, vcs_tmoles (vcs_elab
                            (fold (elcorr_full x2) [0..<m_numComponents s] s))))))"

subsection \<open>Stage 4: one species whose adjustment helps every component constraint\<close>

text \<open>
  \<open>elcorr_goodSpec\<close>: the loop that decides \<^verbatim>\<open>goodSpec\<close> for species
  \<open>kspec\<close>; it carries \<^verbatim>\<open>saveDir\<close> and leaves with \<^verbatim>\<open>FALSE\<close> at a
  \<^verbatim>\<open>break\<close>.
\<close>

fun elcorr_goodSpec :: "vcs_state \<Rightarrow> nat \<Rightarrow> nat list \<Rightarrow> real \<Rightarrow> bool" where
  "elcorr_goodSpec s kspec [] saveDir = True"
| "elcorr_goodSpec s kspec (i # rest) saveDir =
     (let dir = FormulaMatrix s i kspec * (gai s i - ga s i) in
      if \<bar>dir\<bar> > 1 / 10 ^ 10 then
        (if dir > 0
         then (if saveDir < 0 then False else elcorr_goodSpec s kspec rest dir)
         else (if saveDir > 0 then False else elcorr_goodSpec s kspec rest dir))
      else (if FormulaMatrix s i kspec \<noteq> 0 then False
            else elcorr_goodSpec s kspec rest saveDir))"

definition elcorr_average :: "vcs_state \<Rightarrow> nat \<Rightarrow> nat \<Rightarrow> real \<times> nat \<Rightarrow> real \<times> nat" where
  "elcorr_average s kspec i = (\<lambda>(xx, its).
     if FormulaMatrix s i kspec \<noteq> 0
     then (xx + (gai s i - ga s i) / FormulaMatrix s i kspec, its + 1)
     else (xx, its))"

text \<open>
  \<open>elcorr_adhoc\<close>: the loop over the species. The flag of the result says whether the
  loop left through \<^verbatim>\<open>goto L_CLEANUP\<close>.
\<close>

fun elcorr_adhoc :: "reinsert_fn \<Rightarrow> nat list \<Rightarrow> vcs_state \<Rightarrow> vcs_state \<times> bool" where
  "elcorr_adhoc reinsert [] s = (s, False)"
| "elcorr_adhoc reinsert (kspec # rest) s =
     (if SpeciesUnknownType s kspec = VCS_SPECIES_TYPE_INTERFACIALVOLTAGE
      then elcorr_adhoc reinsert rest s
      else if elcorr_goodSpec s kspec [0..<m_numComponents s] 0 then
        (case fold (elcorr_average s kspec) [0..<m_numComponents s] (0, 0) of
           (xx0, its) \<Rightarrow>
             (let xx = (if its > 0 then xx0 / real its else xx0);
                  s1 = s\<lparr>soln := (soln s)(kspec := soln s kspec + xx)\<rparr>;
                  s2 = s1\<lparr>soln := (soln s1)(kspec := max (soln s1 kspec) (1 / 10 ^ 10))\<rparr>
              in if kspec \<ge> m_numSpeciesRdc s2 then
                   (let s3 = reinsert kspec s2;
                        s4 = s3\<lparr>soln := (soln s3)(m_numSpeciesRdc s3 - 1 := xx)\<rparr>
                    in (vcs_elab s4, True))
                 else elcorr_adhoc reinsert rest (vcs_elab s2)))
      else elcorr_adhoc reinsert rest s)"

subsection \<open>Stage 5: charge neutrality and zero targets\<close>

text \<open>
  \<open>elcorr_neutral\<close>: the loop over the species of the reduced problem for constraint
  \<open>i\<close>; it stops at the first species it adjusts.
\<close>

definition elcorr_shift :: "nat \<Rightarrow> real \<Rightarrow> vcs_state \<Rightarrow> vcs_state" where
  "elcorr_shift kspec delta s =
     (let s1 = s\<lparr>soln := (soln s)(kspec := soln s kspec + delta)\<rparr>;
          s2 = (if soln s1 kspec < 0 then s1\<lparr>soln := (soln s1)(kspec := 0)\<rparr> else s1)
      in vcs_elab s2)"

fun elcorr_neutral :: "nat \<Rightarrow> nat list \<Rightarrow> vcs_state \<Rightarrow> vcs_state" where
  "elcorr_neutral i [] s = s"
| "elcorr_neutral i (kspec # rest) s =
     (if ga s i > 0 \<and> FormulaMatrix s i kspec < 0
      then elcorr_shift kspec (- (ga s i / FormulaMatrix s i kspec)) s
      else if ga s i < 0 \<and> FormulaMatrix s i kspec > 0
      then elcorr_shift kspec (- (ga s i / FormulaMatrix s i kspec)) s
      else elcorr_neutral i rest s)"

definition elcorr_neutral_row :: "nat \<Rightarrow> vcs_state \<Rightarrow> vcs_state" where
  "elcorr_neutral_row i s =
     (if m_elType s i = VCS_ELEM_TYPE_CHARGENEUTRALITY \<or>
         (m_elType s i = VCS_ELEM_TYPE_ABSPOS \<and> gai s i = 0)
      then elcorr_neutral i [0..<m_numSpeciesRdc s] s
      else s)"

definition elcorr_stage5 :: "vcs_state \<Rightarrow> vcs_state" where
  "elcorr_stage5 s = fold elcorr_neutral_row [0..<m_numElemConstraints s] s"

subsection \<open>Stage 6: electron charge\<close>

definition elcorr_useZeroed :: "vcs_state \<Rightarrow> nat \<Rightarrow> real \<Rightarrow> nat \<Rightarrow> bool \<Rightarrow> bool" where
  "elcorr_useZeroed s i dev kspec useZeroed =
     (if dev < 0
      then (if FormulaMatrix s i kspec < 0
            then (if soln s kspec > 0 then False else useZeroed) else useZeroed)
      else (if FormulaMatrix s i kspec > 0
            then (if soln s kspec > 0 then False else useZeroed) else useZeroed))"

fun elcorr_electron :: "nat \<Rightarrow> real \<Rightarrow> bool \<Rightarrow> nat list \<Rightarrow> vcs_state \<Rightarrow> vcs_state" where
  "elcorr_electron i dev useZeroed [] s = s"
| "elcorr_electron i dev useZeroed (kspec # rest) s =
     (if soln s kspec > 0 \<or> useZeroed then
        (if dev < 0 \<and> FormulaMatrix s i kspec < 0
         then elcorr_shift kspec (dev / FormulaMatrix s i kspec) s
         else if dev > 0 \<and> FormulaMatrix s i kspec > 0
         then elcorr_shift kspec (dev / FormulaMatrix s i kspec) s
         else elcorr_electron i dev useZeroed rest s)
      else elcorr_electron i dev useZeroed rest s)"

definition elcorr_electron_row :: "nat \<Rightarrow> vcs_state \<Rightarrow> vcs_state" where
  "elcorr_electron_row i s =
     (let dev = gai s i - ga s i in
      if m_elType s i = VCS_ELEM_TYPE_ELECTRONCHARGE \<and> \<bar>dev\<bar> > 1 / 10 ^ 300
      then elcorr_electron i dev
             (fold (elcorr_useZeroed s i dev) [0..<m_numSpeciesRdc s] True)
             [0..<m_numSpeciesRdc s] s
      else s)"

definition elcorr_stage6 :: "vcs_state \<Rightarrow> vcs_state" where
  "elcorr_stage6 s = fold elcorr_electron_row [0..<m_numElemConstraints s] s"

subsection \<open>The routine\<close>

text \<open>
  \<open>elcorr_finish\<close> is the part of \<^verbatim>\<open>vcs_elcorr\<close> from the first call of
  \<^verbatim>\<open>vcs_elabcheck\<close> to the \<^verbatim>\<open>return\<close>; every road passes \<^verbatim>\<open>L_CLEANUP\<close>,
  where \<^verbatim>\<open>vcs_tmoles\<close> is called. The work vectors \<open>aa\<close> and \<open>x\<close> are scratch
  of the caller and are not part of the result.
\<close>

definition elcorr_finish ::
  "real \<Rightarrow> int \<Rightarrow> vcs_state \<Rightarrow> vcs_error + (vcs_status \<times> vcs_state)" where
  "elcorr_finish cutoff retn s =
     (case vcs_elabcheck cutoff s 0 of
        Inl e \<Rightarrow> Inl e
      | Inr ok0 \<Rightarrow>
          if ok0 then Inr (Retn 1, vcs_tmoles s)
          else
            (let s5 = elcorr_stage5 s in
             case vcs_elabcheck cutoff s5 1 of
               Inl e \<Rightarrow> Inl e
             | Inr ok1 \<Rightarrow>
                 if ok1 then Inr (Retn 1, vcs_tmoles s5)
                 else
                   (let s6 = elcorr_stage6 s5 in
                    case vcs_elabcheck cutoff s6 1 of
                      Inl e \<Rightarrow> Inl e
                    | Inr ok2 \<Rightarrow>
                        if ok2 then Inr (Retn 1, vcs_tmoles s6)
                        else Inr (Retn retn, vcs_tmoles s6))))"

definition vcs_elcorr ::
  "real \<Rightarrow> mlequ_fn \<Rightarrow> reinsert_fn \<Rightarrow> vcs_state \<Rightarrow> (nat \<Rightarrow> real) \<Rightarrow> (nat \<Rightarrow> real)
     \<Rightarrow> vcs_error + (vcs_status \<times> vcs_state)" where
  "vcs_elcorr cutoff mlequ reinsert s aa x =
     (let s2 = elcorr_stage2 cutoff (elcorr_stage1 s) in
      case elcorr_stage3 mlequ s2 aa x of
        None \<Rightarrow> Inr (VCS_FAILED_CONVERGENCE, s2)
      | Some (retn, s3) \<Rightarrow>
          (case (if retn \<ge> 2 then elcorr_adhoc reinsert [0..<m_numSpeciesTot s3] s3
                 else (s3, False)) of
             (s4, jumped) \<Rightarrow>
               if jumped then Inr (Retn retn, vcs_tmoles s4)
               else elcorr_finish cutoff retn s4))"

section \<open>The position switch\<close>

text \<open>
  The exchange utilities \<^verbatim>\<open>vcsUtil_dsw\<close>, \<^verbatim>\<open>vcsUtil_isw\<close>, \<^verbatim>\<open>vcsUtil_stsw\<close>
  and the macro \<^verbatim>\<open>SWAP\<close> are declared outside the sources; each exchanges two entries.
\<close>

definition vcsUtil_dsw :: "(nat \<Rightarrow> real) \<Rightarrow> nat \<Rightarrow> nat \<Rightarrow> (nat \<Rightarrow> real)" where
  "vcsUtil_dsw x i1 i2 = (let t = x i1 in (x(i1 := x i2))(i2 := t))"

definition vcsUtil_isw :: "(nat \<Rightarrow> 'a) \<Rightarrow> nat \<Rightarrow> nat \<Rightarrow> (nat \<Rightarrow> 'a)" where
  "vcsUtil_isw x i1 i2 = (let t = x i1 in (x(i1 := x i2))(i2 := t))"

definition vcsUtil_stsw :: "(nat \<Rightarrow> string) \<Rightarrow> nat \<Rightarrow> nat \<Rightarrow> (nat \<Rightarrow> string)" where
  "vcsUtil_stsw x i1 i2 = (let t = x i1 in (x(i1 := x i2))(i2 := t))"

text \<open>
  \<open>switch_index\<close>: the body of the loop over the entries \<open>e\<close> of one phase's
  \<^verbatim>\<open>ElGlobalIndex\<close>: two \<^verbatim>\<open>if\<close> statements, one after the other.
  \<open>switch_phase\<close>: the body of the loop over the phases.
  \<open>switch_row\<close>: the body of the loop that exchanges the two rows of the formula matrix
  entry by entry.
\<close>

definition switch_index :: "nat \<Rightarrow> nat \<Rightarrow> nat \<Rightarrow> vcs_VolPhase \<Rightarrow> vcs_VolPhase" where
  "switch_index ipos jpos e volPhase =
     (let v1 = (if ElGlobalIndex volPhase e = ipos
                then volPhase\<lparr>ElGlobalIndex := (ElGlobalIndex volPhase)(e := jpos)\<rparr>
                else volPhase)
      in if ElGlobalIndex v1 e = jpos
         then v1\<lparr>ElGlobalIndex := (ElGlobalIndex v1)(e := ipos)\<rparr>
         else v1)"

definition switch_phase :: "nat \<Rightarrow> nat \<Rightarrow> nat \<Rightarrow> vcs_state \<Rightarrow> vcs_state" where
  "switch_phase ipos jpos iph s =
     (let volPhase = VPhaseList s iph
      in s\<lparr>VPhaseList := (VPhaseList s)(iph :=
            fold (switch_index ipos jpos) [0..<nElemConstraints volPhase] volPhase)\<rparr>)"

definition switch_row :: "nat \<Rightarrow> nat \<Rightarrow> nat \<Rightarrow> vcs_state \<Rightarrow> vcs_state" where
  "switch_row ipos jpos j s =
     (let dtmp = FormulaMatrix s ipos j;
          s1 = s\<lparr>FormulaMatrix := (FormulaMatrix s)(ipos :=
                  (FormulaMatrix s ipos)(j := FormulaMatrix s jpos j))\<rparr>
      in s1\<lparr>FormulaMatrix := (FormulaMatrix s1)(jpos :=
                  (FormulaMatrix s1 jpos)(j := dtmp))\<rparr>)"

definition vcs_switch_elem_pos :: "nat \<Rightarrow> nat \<Rightarrow> vcs_state \<Rightarrow> vcs_state" where
  "vcs_switch_elem_pos ipos jpos s =
     (if ipos = jpos then s
      else
        (let s1 = fold (switch_phase ipos jpos) [0..<NPhase s] s;
             s2 = s1\<lparr>gai := vcsUtil_dsw (gai s1) ipos jpos\<rparr>;
             s3 = s2\<lparr>ga := vcsUtil_dsw (ga s2) ipos jpos\<rparr>;
             s4 = s3\<lparr>IndEl := vcsUtil_isw (IndEl s3) ipos jpos\<rparr>;
             s5 = s4\<lparr>m_elType := vcsUtil_isw (m_elType s4) ipos jpos\<rparr>;
             s6 = s5\<lparr>ElActive := vcsUtil_isw (ElActive s5) ipos jpos\<rparr>;
             s7 = fold (switch_row ipos jpos) [0..<m_numSpeciesTot s6] s6
         in s7\<lparr>ElName := vcsUtil_stsw (ElName s7) ipos jpos\<rparr>))"

section \<open>The constraint rearranger\<close>

text \<open>
  The work arrays \<open>aw\<close>, \<open>sa\<close>, \<open>sm\<close>, \<open>ss\<close> belong to the caller; the
  routine returns them with the problem instance.

  \<open>rearrange_test\<close>: the body of the \<^verbatim>\<open>for\<close> loop of the first
  \<^verbatim>\<open>do \<dots> while (lindep)\<close>; it carries \<open>(test, aw, lindep)\<close>.
  \<open>rearrange_sentinel\<close>: that \<^verbatim>\<open>do\<close> loop.
\<close>

definition rearrange_test ::
  "vcs_state \<Rightarrow> nat \<Rightarrow> real \<times> (nat \<Rightarrow> real) \<times> bool \<Rightarrow> real \<times> (nat \<Rightarrow> real) \<times> bool" where
  "rearrange_test s i = (\<lambda>(test, aw, lindep).
     let test1 = test - 1;
         aw1 = aw(i := gai s i)
     in (test1, aw1, if test1 = aw1 i then True else lindep))"

function rearrange_sentinel ::
  "vcs_state \<Rightarrow> real \<Rightarrow> (nat \<Rightarrow> real) \<Rightarrow> real \<times> (nat \<Rightarrow> real)" where
  "rearrange_sentinel s test aw =
     (case fold (rearrange_test s) [0..<m_numElemConstraints s] (test, aw, False) of
        (test1, aw1, lindep) \<Rightarrow>
          if lindep then rearrange_sentinel s test1 aw1 else (test1, aw1))"
  by pat_completeness auto

text \<open>The loop ends: every round that finds a clash rules one constraint out for good.\<close>

lemma fold_upt_Suc: "fold f [0..<Suc n] s = f n (fold f [0..<n] s)"
  by simp

lemma rearrange_test_fold:
  "fold (rearrange_test s) [0..<n] (test, aw, l) =
     (test - real n, (\<lambda>i. if i < n then gai s i else aw i),
      l \<or> (\<exists>i<n. gai s i = test - real (i + 1)))"
proof (induction n)
  case 0
  show ?case by simp
next
  case (Suc n)
  show ?case
    apply (subst fold_upt_Suc)
    apply (subst Suc.IH)
    apply (auto simp add: rearrange_test_def fun_eq_iff less_Suc_eq algebra_simps)
    done
qed

lemma rearrange_sentinel_decreases:
  assumes f: "fold (rearrange_test s) [0..<m_numElemConstraints s] (test, aw, False)
                = (test1, aw1, True)"
  shows "card {i. i < m_numElemConstraints s \<and>
             (\<exists>n::nat. gai s i = test1 - real (n * m_numElemConstraints s + i + 1))}
       < card {i. i < m_numElemConstraints s \<and>
             (\<exists>n::nat. gai s i = test - real (n * m_numElemConstraints s + i + 1))}"
proof -
  let ?E = "m_numElemConstraints s"
  let ?A = "\<lambda>t. {i. i < ?E \<and> (\<exists>n::nat. gai s i = t - real (n * ?E + i + 1))}"
  from f have t1: "test1 = test - real ?E"
    and l': "\<exists>i<?E. gai s i = test - real (i + 1)"
    by (auto simp add: rearrange_test_fold)
  from l' obtain i0 where i0: "i0 < ?E" "gai s i0 = test - real (i0 + 1)" by auto
  have fin: "finite (?A test)" by simp
  have sub: "?A test1 \<subseteq> ?A test"
  proof
    fix i assume "i \<in> ?A test1"
    then obtain n where "i < ?E" "gai s i = test1 - real (n * ?E + i + 1)" by auto
    then have "gai s i = test - real (Suc n * ?E + i + 1)"
      by (simp add: t1 algebra_simps)
    with \<open>i < ?E\<close> show "i \<in> ?A test" by blast
  qed
  have in0: "i0 \<in> ?A test"
  proof -
    have "gai s i0 = test - real (0 * ?E + i0 + 1)" using i0 by simp
    with i0 show ?thesis by blast
  qed
  have out0: "i0 \<notin> ?A test1"
  proof
    assume "i0 \<in> ?A test1"
    then obtain n where "gai s i0 = test1 - real (n * ?E + i0 + 1)" by auto
    with i0 have "real (Suc n * ?E) = 0" by (simp add: t1 algebra_simps)
    then have "Suc n * ?E = 0" by (simp only: of_nat_eq_0_iff)
    with i0 show False by simp
  qed
  from sub in0 out0 have "?A test1 \<subset> ?A test" by blast
  with fin show ?thesis by (rule psubset_card_mono)
qed

termination rearrange_sentinel
proof (relation "measure (\<lambda>(s, test, aw).
    card {i. i < m_numElemConstraints s \<and>
             (\<exists>n::nat. gai s i = test - real (n * m_numElemConstraints s + i + 1))})")
  show "wf (measure (\<lambda>(s, test, aw).
    card {i. i < m_numElemConstraints s \<and>
             (\<exists>n::nat. gai s i = test - real (n * m_numElemConstraints s + i + 1))}))"
    by simp
next
  fix s test aw x y xa ya
  assume "(x, y) = fold (rearrange_test s) [0..<m_numElemConstraints s] (test, aw, False)"
    and "(xa, ya) = y" and "ya"
  then have "fold (rearrange_test s) [0..<m_numElemConstraints s] (test, aw, False)
               = (x, xa, True)"
    by (metis (full_types))
  from rearrange_sentinel_decreases [OF this]
  show "((s, x, xa), s, test, aw) \<in> measure (\<lambda>(s, test, aw).
    card {i. i < m_numElemConstraints s \<and>
             (\<exists>n::nat. gai s i = test - real (n * m_numElemConstraints s + i + 1))})"
    by simp
qed


text \<open>
  \<open>rearrange_find\<close>: the search for the first active constraint from position
  \<open>jr\<close> on whose key is not the sentinel; the result is \<open>m_numElemConstraints\<close>
  when there is none.
\<close>

definition rearrange_find :: "vcs_state \<Rightarrow> (nat \<Rightarrow> real) \<Rightarrow> real \<Rightarrow> nat \<Rightarrow> nat" where
  "rearrange_find s aw test jr =
     (case List.find (\<lambda>ielem. ElActive s ielem \<noteq> 0 \<and> aw ielem \<noteq> test)
             [jr..<m_numElemConstraints s] of
        None \<Rightarrow> m_numElemConstraints s
      | Some ielem \<Rightarrow> ielem)"

text \<open>
  The Gram-Schmidt step on the candidate \<open>k\<close> for position \<open>jr\<close>, with
  \<open>nc = ncomponents\<close>: \<open>gs_fill\<close> copies the row of the candidate into row
  \<open>jr\<close> of \<open>sm\<close>; \<open>gs_dot\<close> and \<open>gs_coeff\<close> compute \<open>ss[j]\<close>;
  \<open>gs_sub\<close> and \<open>gs_orth\<close> subtract the projections; \<open>gs_norm\<close> sums the squares
  into \<open>sa[jr]\<close>. \<open>gs_candidate\<close> is the whole step, from the copy to \<open>sa[jr]\<close>.
\<close>

definition gs_fill :: "vcs_state \<Rightarrow> nat \<Rightarrow> nat \<Rightarrow> nat \<Rightarrow> nat \<Rightarrow> (nat \<Rightarrow> real) \<Rightarrow> (nat \<Rightarrow> real)" where
  "gs_fill s nc k jr j sm = sm(j + jr * nc := FormulaMatrix s k j)"

definition gs_dot :: "nat \<Rightarrow> nat \<Rightarrow> (nat \<Rightarrow> real) \<Rightarrow> nat \<Rightarrow> nat \<Rightarrow> (nat \<Rightarrow> real) \<Rightarrow> (nat \<Rightarrow> real)" where
  "gs_dot nc jr sm j i ss = ss(j := ss j + sm (i + jr * nc) * sm (i + j * nc))"

definition gs_coeff ::
  "nat \<Rightarrow> nat \<Rightarrow> (nat \<Rightarrow> real) \<Rightarrow> (nat \<Rightarrow> real) \<Rightarrow> nat \<Rightarrow> (nat \<Rightarrow> real) \<Rightarrow> (nat \<Rightarrow> real)" where
  "gs_coeff nc jr sa sm j ss =
     (let ss1 = fold (gs_dot nc jr sm j) [0..<nc] (ss(j := 0))
      in ss1(j := ss1 j / sa j))"

definition gs_sub :: "nat \<Rightarrow> nat \<Rightarrow> (nat \<Rightarrow> real) \<Rightarrow> nat \<Rightarrow> nat \<Rightarrow> (nat \<Rightarrow> real) \<Rightarrow> (nat \<Rightarrow> real)" where
  "gs_sub nc jr ss j l sm = sm(l + jr * nc := sm (l + jr * nc) - ss j * sm (l + j * nc))"

definition gs_orth :: "nat \<Rightarrow> nat \<Rightarrow> (nat \<Rightarrow> real) \<Rightarrow> nat \<Rightarrow> (nat \<Rightarrow> real) \<Rightarrow> (nat \<Rightarrow> real)" where
  "gs_orth nc jr ss j sm = fold (gs_sub nc jr ss j) [0..<nc] sm"

definition gs_norm :: "nat \<Rightarrow> nat \<Rightarrow> (nat \<Rightarrow> real) \<Rightarrow> nat \<Rightarrow> (nat \<Rightarrow> real) \<Rightarrow> (nat \<Rightarrow> real)" where
  "gs_norm nc jr sm ml sa = sa(jr := sa jr + (sm (ml + jr * nc)) ^ 2)"

definition gs_candidate ::
  "vcs_state \<Rightarrow> nat \<Rightarrow> nat \<Rightarrow> nat \<Rightarrow> (nat \<Rightarrow> real) \<times> (nat \<Rightarrow> real) \<times> (nat \<Rightarrow> real)
     \<Rightarrow> (nat \<Rightarrow> real) \<times> (nat \<Rightarrow> real) \<times> (nat \<Rightarrow> real)" where
  "gs_candidate s nc k jr = (\<lambda>(sa, sm, ss).
     let jl = jr;
         sm1 = fold (gs_fill s nc k jr) [0..<nc] sm;
         ss1 = (if jl > 0 then fold (gs_coeff nc jr sa sm1) [0..<jl] ss else ss);
         sm2 = (if jl > 0 then fold (gs_orth nc jr ss1) [0..<jl] sm1 else sm1);
         sa1 = fold (gs_norm nc jr sm2) [0..<nc] (sa(jr := 0))
     in (sa1, sm2, ss1))"

text \<open>
  \<open>rearrange_pick\<close>: the inner \<^verbatim>\<open>do \<dots> while (lindep)\<close>. It is \<open>None\<close> when the
  search finds no candidate, where the routine calls \<^verbatim>\<open>exit(-1)\<close>; otherwise it gives
  the accepted candidate \<open>k\<close> and the work arrays.
\<close>

function rearrange_pick ::
  "vcs_state \<Rightarrow> nat \<Rightarrow> real \<Rightarrow> nat \<Rightarrow> (nat \<Rightarrow> real)
     \<Rightarrow> (nat \<Rightarrow> real) \<times> (nat \<Rightarrow> real) \<times> (nat \<Rightarrow> real)
     \<Rightarrow> (nat \<times> (nat \<Rightarrow> real) \<times> (nat \<Rightarrow> real) \<times> (nat \<Rightarrow> real) \<times> (nat \<Rightarrow> real)) option" where
  "rearrange_pick s nc test jr aw w =
     (let k = rearrange_find s aw test jr in
      if k = m_numElemConstraints s then None
      else
        (let aw1 = aw(k := test) in
         case gs_candidate s nc k jr w of
           (sa, sm, ss) \<Rightarrow>
             if sa jr < 1 / 10 ^ 6
             then rearrange_pick s nc test jr aw1 (sa, sm, ss)
             else Some (k, aw1, sa, sm, ss)))"
  by pat_completeness auto

text \<open>The loop ends: every candidate it tries is marked with the sentinel.\<close>

lemma rearrange_find_found:
  assumes "rearrange_find s aw test jr \<noteq> m_numElemConstraints s"
  shows "jr \<le> rearrange_find s aw test jr \<and>
         rearrange_find s aw test jr < m_numElemConstraints s \<and>
         ElActive s (rearrange_find s aw test jr) \<noteq> 0 \<and>
         aw (rearrange_find s aw test jr) \<noteq> test"
proof (cases "List.find (\<lambda>ielem. ElActive s ielem \<noteq> 0 \<and> aw ielem \<noteq> test)
                [jr..<m_numElemConstraints s]")
  case None
  with assms show ?thesis by (simp add: rearrange_find_def)
next
  case (Some k)
  then have k: "rearrange_find s aw test jr = k" by (simp add: rearrange_find_def)
  from Some have "k \<in> set [jr..<m_numElemConstraints s]"
    and "ElActive s k \<noteq> 0 \<and> aw k \<noteq> test"
    by (auto simp add: find_Some_iff)
  with k show ?thesis by simp
qed

lemma rearrange_pick_decreases:
  assumes "rearrange_find s aw test jr \<noteq> m_numElemConstraints s"
  shows "card {i. jr \<le> i \<and> i < m_numElemConstraints s \<and> ElActive s i \<noteq> 0 \<and>
                  (aw(rearrange_find s aw test jr := test)) i \<noteq> test}
       < card {i. jr \<le> i \<and> i < m_numElemConstraints s \<and> ElActive s i \<noteq> 0 \<and>
                  aw i \<noteq> test}"
proof -
  let ?k = "rearrange_find s aw test jr"
  let ?B = "{i. jr \<le> i \<and> i < m_numElemConstraints s \<and> ElActive s i \<noteq> 0 \<and> aw i \<noteq> test}"
  from rearrange_find_found [OF assms] have kin: "?k \<in> ?B" by simp
  have eq: "{i. jr \<le> i \<and> i < m_numElemConstraints s \<and> ElActive s i \<noteq> 0 \<and>
                  (aw(?k := test)) i \<noteq> test} = ?B - {?k}"
    by auto
  have fin: "finite ?B" by simp
  show ?thesis unfolding eq by (rule card_Diff1_less [OF fin kin])
qed

termination rearrange_pick
proof (relation "measure (\<lambda>(s, nc, test, jr, aw, w).
    card {i. jr \<le> i \<and> i < m_numElemConstraints s \<and> ElActive s i \<noteq> 0 \<and> aw i \<noteq> test})")
  show "wf (measure (\<lambda>(s, nc, test, jr, aw, w).
    card {i. jr \<le> i \<and> i < m_numElemConstraints s \<and> ElActive s i \<noteq> 0 \<and> aw i \<noteq> test}))"
    by simp
next
  fix s nc test jr aw w x xa xb y xc ya
  assume "x = rearrange_find s aw test jr" and "x \<noteq> m_numElemConstraints s"
    and "xa = aw(x := test)"
  with rearrange_pick_decreases [of s aw test jr]
  show "((s, nc, test, jr, xa, xb, xc, ya), s, nc, test, jr, aw, w) \<in>
    measure (\<lambda>(s, nc, test, jr, aw, w).
      card {i. jr \<le> i \<and> i < m_numElemConstraints s \<and> ElActive s i \<noteq> 0 \<and> aw i \<noteq> test})"
    by simp
qed


text \<open>
  \<open>rearrange_loop\<close>: the outer \<^verbatim>\<open>do \<dots> while (jr < (ncomponents-1))\<close>, entered
  with \<open>jr\<close> already incremented; the comparison is one of C integers.
  \<open>vcs_elem_rearrange\<close>: the routine; \<^verbatim>\<open>test\<close> starts at \<open>-1.0E10\<close>.
\<close>

function rearrange_loop ::
  "vcs_state \<Rightarrow> nat \<Rightarrow> real \<Rightarrow> nat \<Rightarrow> (nat \<Rightarrow> real)
     \<Rightarrow> (nat \<Rightarrow> real) \<times> (nat \<Rightarrow> real) \<times> (nat \<Rightarrow> real)
     \<Rightarrow> (vcs_state \<times> (nat \<Rightarrow> real) \<times> (nat \<Rightarrow> real) \<times> (nat \<Rightarrow> real) \<times> (nat \<Rightarrow> real)) option" where
  "rearrange_loop s nc test jr aw w =
     (case rearrange_pick s nc test jr aw w of
        None \<Rightarrow> None
      | Some (k, aw1, sa, sm, ss) \<Rightarrow>
          (let s1 = (if jr \<noteq> k then vcs_switch_elem_pos jr k s else s);
               aw2 = (if jr \<noteq> k then vcsUtil_dsw aw1 jr k else aw1)
           in if int jr < int nc - 1
              then rearrange_loop s1 nc test (jr + 1) aw2 (sa, sm, ss)
              else Some (s1, aw2, sa, sm, ss)))"
  by pat_completeness auto
termination
  by (relation "measure (\<lambda>(s, nc, test, jr, aw, w). nc - jr)") auto

definition vcs_elem_rearrange ::
  "vcs_state \<Rightarrow> (nat \<Rightarrow> real) \<Rightarrow> (nat \<Rightarrow> real) \<Rightarrow> (nat \<Rightarrow> real) \<Rightarrow> (nat \<Rightarrow> real)
     \<Rightarrow> vcs_error +
        (vcs_status \<times> vcs_state \<times> (nat \<Rightarrow> real) \<times> (nat \<Rightarrow> real) \<times> (nat \<Rightarrow> real) \<times> (nat \<Rightarrow> real))" where
  "vcs_elem_rearrange s aw sa sm ss =
     (case rearrange_sentinel s (- (10 ^ 10)) aw of
        (test, aw0) \<Rightarrow>
          (case rearrange_loop s (m_numComponents s) test 0 aw0 (sa, sm, ss) of
             None \<Rightarrow> Inl VCS_EXIT
           | Some r \<Rightarrow> Inr (VCS_SUCCESS, r)))"

section \<open>Example problems\<close>

text \<open>
  Concrete problem instances on which the theorems below are evaluated. \<open>vcs_blank\<close> is
  the empty problem; \<open>ex_voltage\<close> has one constraint and two species, the second one
  an interfacial voltage in a phase of its own.
\<close>

definition vcs_blank :: vcs_state where
  "vcs_blank =
     \<lparr>m_numElemConstraints = 0, m_numComponents = 0, m_numSpeciesTot = 0,
      m_numSpeciesRdc = 0, NPhase = 0,
      ga = (\<lambda>_. 0), gai = (\<lambda>_. 0), soln = (\<lambda>_. 0), FormulaMatrix = (\<lambda>_ _. 0),
      SpeciesUnknownType = (\<lambda>_. VCS_SPECIES_TYPE_MOLNUM), PhaseID = (\<lambda>_. 0),
      SSPhase = (\<lambda>_. 0), spStatus = (\<lambda>_. VCS_SPECIES_ACTIVE),
      m_elType = (\<lambda>_. VCS_ELEM_TYPE_ABSPOS), ElActive = (\<lambda>_. 1), IndEl = (\<lambda>_. 0),
      ElName = (\<lambda>_. []),
      VPhaseList = (\<lambda>_. \<lparr>nElemConstraints = 0, ElGlobalIndex = (\<lambda>_. 0)\<rparr>),
      TPhMoles = (\<lambda>_. 0)\<rparr>"

definition ex_voltage :: vcs_state where
  "ex_voltage = vcs_blank
     \<lparr>m_numElemConstraints := 1, m_numComponents := 1, m_numSpeciesTot := 2,
      m_numSpeciesRdc := 2, NPhase := 2,
      soln := (\<lambda>_. 0)(0 := 3, 1 := 7),
      FormulaMatrix := (\<lambda>_ _. 0)(0 := (\<lambda>_. 0)(0 := 2, 1 := 5)),
      SpeciesUnknownType := (\<lambda>_. VCS_SPECIES_TYPE_MOLNUM)(1 := VCS_SPECIES_TYPE_INTERFACIALVOLTAGE),
      PhaseID := (\<lambda>_. 0)(1 := 1)\<rparr>"

text \<open>
  \<open>ex_rounding\<close>: one constraint with the row \<open>(1, 1, -1)\<close>, three species with
  the mole numbers \<open>1e16\<close>, 1, \<open>1e16\<close>, the second one in a phase of its own.
  \<open>ex_phases\<close>: the same with the mole numbers 4, 1, 2.
\<close>

definition ex_rounding :: vcs_state where
  "ex_rounding = vcs_blank
     \<lparr>m_numElemConstraints := 1, m_numComponents := 1, m_numSpeciesTot := 3,
      m_numSpeciesRdc := 3, NPhase := 2,
      soln := (\<lambda>_. 0)(0 := 10000000000000000, 1 := 1, 2 := 10000000000000000),
      FormulaMatrix := (\<lambda>_ _. 0)(0 := (\<lambda>_. 0)(0 := 1, 1 := 1, 2 := - 1)),
      PhaseID := (\<lambda>_. 0)(1 := 1)\<rparr>"

definition ex_phases :: vcs_state where
  "ex_phases = ex_rounding\<lparr>soln := (\<lambda>_. 0)(0 := 4, 1 := 1, 2 := 2)\<rparr>"

text \<open>
  \<open>ex_switch\<close>: two constraints, two species, one phase whose \<^verbatim>\<open>ElGlobalIndex\<close>
  lists the constraints 0 and 1 in this order.
\<close>

definition ex_switch :: vcs_state where
  "ex_switch = vcs_blank
     \<lparr>m_numElemConstraints := 2, m_numComponents := 2, m_numSpeciesTot := 2,
      m_numSpeciesRdc := 2, NPhase := 1,
      gai := (\<lambda>_. 0)(0 := 2, 1 := 3),
      FormulaMatrix := (\<lambda>_ _. 0)(0 := (\<lambda>_. 0)(0 := 1), 1 := (\<lambda>_. 0)(1 := 1)),
      VPhaseList := (\<lambda>_. \<lparr>nElemConstraints = 0, ElGlobalIndex = (\<lambda>_. 0)\<rparr>)
         (0 := \<lparr>nElemConstraints = 2, ElGlobalIndex = (\<lambda>_. 0)(0 := 0, 1 := 1)\<rparr>)\<rparr>"

text \<open>
  \<open>switched_phase\<close>: what the loop over the entries of a phase's map computes (see
  \<open>switch_index_fold\<close>).
\<close>

definition switched_phase :: "nat \<Rightarrow> nat \<Rightarrow> vcs_VolPhase \<Rightarrow> vcs_VolPhase" where
  "switched_phase ipos jpos v =
     v\<lparr>ElGlobalIndex := (\<lambda>e. if e < nElemConstraints v \<and>
                                 (ElGlobalIndex v e = ipos \<or> ElGlobalIndex v e = jpos)
                              then ipos else ElGlobalIndex v e)\<rparr>"

text \<open>
  \<open>ex_check\<close>: one charge-neutrality constraint with target zero and two species.
  Species 0 is a mole number with coefficient 1; species 1 is an interfacial voltage with
  coefficient -1, whose entry of \<open>soln\<close> is a voltage. The abundance \<open>ga\<close> is the
  one \<^verbatim>\<open>vcs_elab\<close> computes.
\<close>

definition ex_check :: vcs_state where
  "ex_check = vcs_blank
     \<lparr>m_numElemConstraints := 1, m_numComponents := 1, m_numSpeciesTot := 2,
      m_numSpeciesRdc := 2, NPhase := 1,
      ga := (\<lambda>_. 0)(0 := 1 / 10 ^ 12),
      soln := (\<lambda>_. 0)(0 := 1 / 10 ^ 12, 1 := 1),
      FormulaMatrix := (\<lambda>_ _. 0)(0 := (\<lambda>_. 0)(0 := 1, 1 := - 1)),
      SpeciesUnknownType := (\<lambda>_. VCS_SPECIES_TYPE_MOLNUM)(1 := VCS_SPECIES_TYPE_INTERFACIALVOLTAGE),
      m_elType := (\<lambda>_. VCS_ELEM_TYPE_CHARGENEUTRALITY)\<rparr>"

text \<open>
  Modelled from the spec: the solver \<^verbatim>\<open>vcsUtil_mlequ\<close> is not part of the sources.
  The spec: "a generic dense linear-system solver (square, single right-hand side, returns
  a nonzero status on singularity)", which stage 3 uses to "solve this square linear
  system for a correction direction". \<open>ex_mlequ\<close> is that solver on a system of one
  equation, which is all the examples with one component need: status 1 when the
  coefficient is zero, otherwise status 0 and the correction \<open>d\<close> with
  \<open>aa[0] * d + x[0] = 0\<close>.
\<close>

definition ex_mlequ :: mlequ_fn where
  "ex_mlequ aa idem n x m =
     (if aa 0 = 0 then (1, x) else (0, x(0 := - x 0 / aa 0)))"

text \<open>
  \<open>ex_compliant\<close>: one constraint of type ABSPOS with target 3, two species with
  coefficient 1 and mole numbers 2 and 1, the first one the component. The abundance is
  on target.
\<close>

definition ex_compliant :: vcs_state where
  "ex_compliant = vcs_blank
     \<lparr>m_numElemConstraints := 1, m_numComponents := 1, m_numSpeciesTot := 2,
      m_numSpeciesRdc := 2, NPhase := 1,
      ga := (\<lambda>_. 0)(0 := 3),
      gai := (\<lambda>_. 0)(0 := 3),
      soln := (\<lambda>_. 0)(0 := 2, 1 := 1),
      FormulaMatrix := (\<lambda>_ _. 0)(0 := (\<lambda>_. 0)(0 := 1, 1 := 1))\<rparr>"

text \<open>
  \<open>ex_negative\<close>: one constraint of type electron charge with target -1 and one
  species with coefficient 1 and mole number 1, in a phase of several species.
\<close>

definition ex_negative :: vcs_state where
  "ex_negative = vcs_blank
     \<lparr>m_numElemConstraints := 1, m_numComponents := 1, m_numSpeciesTot := 1,
      m_numSpeciesRdc := 1, NPhase := 1,
      ga := (\<lambda>_. 0)(0 := 1),
      gai := (\<lambda>_. 0)(0 := - 1),
      soln := (\<lambda>_. 0)(0 := 1),
      FormulaMatrix := (\<lambda>_ _. 0)(0 := (\<lambda>_. 0)(0 := 1)),
      m_elType := (\<lambda>_. VCS_ELEM_TYPE_ELECTRONCHARGE)\<rparr>"

text \<open>
  Modelled from the spec: \<^verbatim>\<open>vcs_reinsert_deleted\<close> is not part of the sources. The
  spec: the reinsertion "reactivates a previously zeroed/removed species so it becomes
  eligible for the ad-hoc repair". The species of the reduced problem are those below
  \<^verbatim>\<open>m_numSpeciesRdc\<close>, and right after the call the corrector assigns to
  \<^verbatim>\<open>soln[m_numSpeciesRdc - 1]\<close>: the reinserted species is the last one of the
  reduced problem then. The model exchanges species \<open>kspec\<close> with the first species
  outside the reduced problem in every array indexed by species, the columns of the
  formula matrix among them, marks it active and increments \<^verbatim>\<open>m_numSpeciesRdc\<close>.
\<close>

definition vcs_reinsert_deleted :: reinsert_fn where
  "vcs_reinsert_deleted kspec s =
     (let k1 = m_numSpeciesRdc s in
      s\<lparr>m_numSpeciesRdc := k1 + 1,
        soln := vcsUtil_dsw (soln s) k1 kspec,
        FormulaMatrix := (\<lambda>j. vcsUtil_dsw (FormulaMatrix s j) k1 kspec),
        SpeciesUnknownType := vcsUtil_isw (SpeciesUnknownType s) k1 kspec,
        PhaseID := vcsUtil_isw (PhaseID s) k1 kspec,
        SSPhase := vcsUtil_isw (SSPhase s) k1 kspec,
        spStatus := (vcsUtil_isw (spStatus s) k1 kspec)(k1 := VCS_SPECIES_ACTIVE)\<rparr>)"

text \<open>
  \<open>ex_reinsert\<close>: an electron-charge constraint with the row \<open>(1, -1, 1, 0)\<close> and
  target -5, and a constraint of type ABSPOS with the row \<open>(0, 0, 0, 1)\<close> and target
  0; four species, the first one the component with mole number 1, the last two outside
  the reduced problem, with mole number 0.
\<close>

definition ex_reinsert :: vcs_state where
  "ex_reinsert = vcs_blank
     \<lparr>m_numElemConstraints := 2, m_numComponents := 1, m_numSpeciesTot := 4,
      m_numSpeciesRdc := 2, NPhase := 1,
      ga := (\<lambda>_. 0)(0 := 1),
      gai := (\<lambda>_. 0)(0 := - 5),
      soln := (\<lambda>_. 0)(0 := 1),
      FormulaMatrix := (\<lambda>_ _. 0)(0 := (\<lambda>_. 0)(0 := 1, 1 := - 1, 2 := 1),
                                  1 := (\<lambda>_. 0)(3 := 1)),
      spStatus := (\<lambda>_. VCS_SPECIES_ACTIVE)(2 := VCS_SPECIES_ZEROEDMS, 3 := VCS_SPECIES_ZEROEDMS),
      m_elType := (\<lambda>_. VCS_ELEM_TYPE_ABSPOS)(0 := VCS_ELEM_TYPE_ELECTRONCHARGE)\<rparr>"

section \<open>Frames\<close>

text \<open>
  \<open>same_problem s s'\<close>: \<open>s'\<close> differs from \<open>s\<close> at most in the mole numbers
  \<open>soln\<close>, the current abundances \<open>ga\<close>, the species status and the phase totals.
  \<open>same_constraints s s'\<close>: the target abundances, the formula matrix and the type tags,
  active flags and names of the constraints are the same in \<open>s\<close> and \<open>s'\<close>.
\<close>

definition same_problem :: "vcs_state \<Rightarrow> vcs_state \<Rightarrow> bool" where
  "same_problem s s' \<longleftrightarrow>
     m_numElemConstraints s' = m_numElemConstraints s \<and>
     m_numComponents s' = m_numComponents s \<and>
     m_numSpeciesTot s' = m_numSpeciesTot s \<and>
     m_numSpeciesRdc s' = m_numSpeciesRdc s \<and>
     NPhase s' = NPhase s \<and>
     gai s' = gai s \<and>
     FormulaMatrix s' = FormulaMatrix s \<and>
     SpeciesUnknownType s' = SpeciesUnknownType s \<and>
     PhaseID s' = PhaseID s \<and>
     SSPhase s' = SSPhase s \<and>
     m_elType s' = m_elType s \<and>
     ElActive s' = ElActive s \<and>
     IndEl s' = IndEl s \<and>
     ElName s' = ElName s \<and>
     VPhaseList s' = VPhaseList s"

definition same_constraints :: "vcs_state \<Rightarrow> vcs_state \<Rightarrow> bool" where
  "same_constraints s s' \<longleftrightarrow>
     gai s' = gai s \<and>
     FormulaMatrix s' = FormulaMatrix s \<and>
     m_elType s' = m_elType s \<and>
     ElActive s' = ElActive s \<and>
     ElName s' = ElName s"

text \<open>
  \<open>swap_idx i j\<close>: the exchange of the positions \<open>i\<close> and \<open>j\<close>.
  \<open>reordered s p s'\<close>: the constraint-indexed arrays of \<open>s'\<close> are those of \<open>s\<close>
  read through the map \<open>p\<close> of positions (the formula matrix in its first
  \<open>m_numSpeciesTot\<close> columns, the only ones the switch touches); the sizes and the
  species data are the same.
\<close>

definition swap_idx :: "nat \<Rightarrow> nat \<Rightarrow> nat \<Rightarrow> nat" where
  "swap_idx i j n = (if n = i then j else if n = j then i else n)"

definition reordered :: "vcs_state \<Rightarrow> (nat \<Rightarrow> nat) \<Rightarrow> vcs_state \<Rightarrow> bool" where
  "reordered s p s' \<longleftrightarrow>
     m_numElemConstraints s' = m_numElemConstraints s \<and>
     m_numComponents s' = m_numComponents s \<and>
     m_numSpeciesTot s' = m_numSpeciesTot s \<and>
     m_numSpeciesRdc s' = m_numSpeciesRdc s \<and>
     NPhase s' = NPhase s \<and>
     soln s' = soln s \<and>
     SpeciesUnknownType s' = SpeciesUnknownType s \<and>
     PhaseID s' = PhaseID s \<and>
     SSPhase s' = SSPhase s \<and>
     spStatus s' = spStatus s \<and>
     TPhMoles s' = TPhMoles s \<and>
     gai s' = gai s \<circ> p \<and>
     ga s' = ga s \<circ> p \<and>
     IndEl s' = IndEl s \<circ> p \<and>
     m_elType s' = m_elType s \<circ> p \<and>
     ElActive s' = ElActive s \<circ> p \<and>
     ElName s' = ElName s \<circ> p \<and>
     FormulaMatrix s' =
       (\<lambda>r c. if c < m_numSpeciesTot s then FormulaMatrix s (p r) c else FormulaMatrix s r c)"

text \<open>
  \<open>ex_small\<close>: two active constraints, one component; the row of constraint 0 is
  \<open>1e-4\<close> on the component, that of constraint 1 is 1. \<open>ex_inactive\<close>: the same
  with both constraints inactive.
\<close>

definition ex_small :: vcs_state where
  "ex_small = vcs_blank
     \<lparr>m_numElemConstraints := 2, m_numComponents := 1, m_numSpeciesTot := 1,
      m_numSpeciesRdc := 1, NPhase := 1,
      gai := (\<lambda>_. 0)(0 := 2, 1 := 3),
      FormulaMatrix := (\<lambda>_ _. 0)(0 := (\<lambda>_. 0)(0 := 1 / 10000), 1 := (\<lambda>_. 0)(0 := 1))\<rparr>"


definition ex_inactive :: vcs_state where
  "ex_inactive = ex_small\<lparr>ElActive := (\<lambda>_. 0)\<rparr>"

text \<open>
  \<open>lin_indep_rows s\<close>: the first \<open>m_numComponents\<close> rows of the formula matrix,
  restricted to the columns of the components, are linearly independent.

  \<open>gs_prefix s nc n w\<close>: the work arrays after the routine's Gram-Schmidt step has
  been run on the constraints \<open>0 \<dots> n - 1\<close>, each at its own position. The first
  component of \<open>gs_prefix s nc (Suc j) w\<close> at \<open>j\<close> is the squared norm of the residual
  of row \<open>j\<close> against the rows before it.
\<close>

definition lin_indep_rows :: "vcs_state \<Rightarrow> bool" where
  "lin_indep_rows s \<longleftrightarrow>
     (\<forall>c. (\<forall>k < m_numComponents s.
              (\<Sum>j < m_numComponents s. c j * FormulaMatrix s j k) = 0)
          \<longrightarrow> (\<forall>j < m_numComponents s. c j = 0))"

fun gs_prefix ::
  "vcs_state \<Rightarrow> nat \<Rightarrow> nat \<Rightarrow> (nat \<Rightarrow> real) \<times> (nat \<Rightarrow> real) \<times> (nat \<Rightarrow> real)
     \<Rightarrow> (nat \<Rightarrow> real) \<times> (nat \<Rightarrow> real) \<times> (nat \<Rightarrow> real)" where
  "gs_prefix s nc 0 w = w"
| "gs_prefix s nc (Suc n) w = gs_candidate s nc n n (gs_prefix s nc n w)"

text \<open>
  \<open>gs_ok s nc n sa sm\<close>: the first \<open>n\<close> rows of the work array \<open>sm\<close> (row \<open>j\<close> is
  \<open>sm[l + j*nc]\<close>, \<open>l < nc\<close>) are the Gram-Schmidt residuals of the first \<open>n\<close>
  constraint rows of \<open>s\<close>: each is its constraint row minus a combination of the rows of
  \<open>sm\<close> before it, they are orthogonal to each other, none is zero, and \<open>sa[j]\<close> is
  the squared norm of row \<open>j\<close>.
\<close>

definition gs_ok :: "vcs_state \<Rightarrow> nat \<Rightarrow> nat \<Rightarrow> (nat \<Rightarrow> real) \<Rightarrow> (nat \<Rightarrow> real) \<Rightarrow> bool" where
  "gs_ok s nc n sa sm \<longleftrightarrow>
     (\<exists>c. \<forall>j<n.
        sa j = (\<Sum>l<nc. sm (l + j * nc) * sm (l + j * nc)) \<and> 0 < sa j \<and>
        (\<forall>i<j. (\<Sum>l<nc. sm (l + i * nc) * sm (l + j * nc)) = 0) \<and>
        (\<forall>l<nc. sm (l + j * nc) = FormulaMatrix s j l - (\<Sum>i<j. c j i * sm (l + i * nc))))"

text \<open>
  \<open>independent_active s\<close>: there are \<open>m_numComponents\<close> different active constraints
  whose rows, restricted to the columns of the components, are linearly independent.
\<close>

definition independent_active :: "vcs_state \<Rightarrow> bool" where
  "independent_active s \<longleftrightarrow>
     (\<exists>f. inj_on f {..<m_numComponents s} \<and>
          (\<forall>j < m_numComponents s. f j < m_numElemConstraints s \<and> ElActive s (f j) \<noteq> 0) \<and>
          (\<forall>a. (\<forall>l < m_numComponents s.
                   (\<Sum>j < m_numComponents s. a j * FormulaMatrix s (f j) l) = 0)
               \<longrightarrow> (\<forall>j < m_numComponents s. a j = 0)))"

text \<open>
  \<open>ex_redundant\<close>: three active constraints with the rows \<open>(1, 0)\<close>, \<open>(2, 0)\<close>,
  \<open>(0, 1)\<close> and the targets 1, 2, 3, two components. \<open>ex_dependent\<close>: the first two
  of these constraints only.
\<close>

definition ex_redundant :: vcs_state where
  "ex_redundant = vcs_blank
     \<lparr>m_numElemConstraints := 3, m_numComponents := 2, m_numSpeciesTot := 2,
      m_numSpeciesRdc := 2, NPhase := 1,
      gai := (\<lambda>_. 0)(0 := 1, 1 := 2, 2 := 3),
      FormulaMatrix := (\<lambda>_ _. 0)(0 := (\<lambda>_. 0)(0 := 1), 1 := (\<lambda>_. 0)(0 := 2),
                                  2 := (\<lambda>_. 0)(1 := 1))\<rparr>"

definition ex_dependent :: vcs_state where
  "ex_dependent = ex_redundant\<lparr>m_numElemConstraints := 2\<rparr>"

section \<open>The corrector and the sum of squared discrepancies\<close>












section \<open>Evaluator: the sums it computes\<close>

lemma sum_filter_upto:
  "(\<Sum>k \<in> {k. k < (n::nat) \<and> P k}. f k) = (\<Sum>k<n. if P k then f k else (0::real))"
proof -
  have "{k. k < n \<and> P k} = {..<n} \<inter> {k. P k}" by auto
  then show ?thesis by (simp add: sum.inter_restrict)
qed

lemma elab_add_fold:
  "fold (elab_add j) [0..<n] s =
     s\<lparr>ga := (ga s)(j := ga s j +
        (\<Sum>k<n. if nonvolt s k then FormulaMatrix s j k * soln s k else 0))\<rparr>"
proof (induction n)
  case 0
  show ?case by simp
next
  case (Suc n)
  show ?case
    apply (subst fold_upt_Suc)
    apply (subst Suc.IH)
    apply (simp add: elab_add_def nonvolt_def algebra_simps)
    done
qed

lemma elab_row_eq: "elab_row j s = s\<lparr>ga := (ga s)(j := abundance s j)\<rparr>"
  by (simp add: elab_row_def elab_add_fold abundance_def sum_filter_upto nonvolt_def
      cong: if_cong)

lemma elab_row_fold:
  "fold elab_row [0..<n] s = s\<lparr>ga := (\<lambda>j. if j < n then abundance s j else ga s j)\<rparr>"
proof (induction n)
  case 0
  show ?case by simp
next
  case (Suc n)
  have "abundance (s\<lparr>ga := (\<lambda>j. if j < n then abundance s j else ga s j)\<rparr>) n = abundance s n"
    by (simp add: abundance_def nonvolt_def)
  then show ?case
    apply (subst fold_upt_Suc)
    apply (subst Suc.IH)
    apply (simp add: elab_row_eq fun_eq_iff less_Suc_eq)
    done
qed

lemma vcs_elab_eq:
  "vcs_elab s =
     s\<lparr>ga := (\<lambda>j. if j < m_numElemConstraints s then abundance s j else ga s j)\<rparr>"
  unfolding vcs_elab_def by (rule elab_row_fold)

section \<open>Evaluator: rounding\<close>

lemma round_even_of_int: "round_even (of_int n) = n"
  by (simp add: round_even_def)

lemma binary64_zero: "binary64 0 = 0"
  by (simp add: binary64_def)

lemma binary64_at:
  assumes "2 powr of_int e \<le> \<bar>x\<bar>" and "\<bar>x\<bar> < 2 powr (of_int e + 1)"
  shows "binary64 x = 2 powr (of_int e - 52) * of_int (round_even (x / 2 powr (of_int e - 52)))"
proof -
  have pos: "0 < \<bar>x\<bar>" using assms(1) by (smt (verit) powr_gt_zero)
  then have "\<lfloor>log 2 \<bar>x\<bar>\<rfloor> = e"
    using assms by (simp add: floor_log_eq_powr_iff)
  with pos show ?thesis by (simp add: binary64_def Let_def)
qed

lemma binary64_int:
  assumes "x \<in> \<int>" and "\<bar>x\<bar> < 2 ^ 53"
  shows "binary64 x = x"
proof (cases "x = 0")
  case True
  then show ?thesis by (simp add: binary64_zero)
next
  case False
  define e where "e = \<lfloor>log 2 \<bar>x\<bar>\<rfloor>"
  from False have pos: "0 < \<bar>x\<bar>" by simp
  have lo: "2 powr of_int e \<le> \<bar>x\<bar>" and hi: "\<bar>x\<bar> < 2 powr (of_int e + 1)"
    using floor_log_eq_powr_iff [of "\<bar>x\<bar>" 2 e] pos by (simp_all add: e_def)
  have "(2::real) powr 53 = 2 ^ 53"
    using powr_realpow [of 2 53] by simp
  with lo assms(2) have "(2::real) powr of_int e < 2 powr 53" by linarith
  then have "real_of_int e < 53" by (simp only: powr_less_cancel_iff)
  then have e53: "e < 53" by simp
  from assms(1) obtain n :: int where n: "x = of_int n" by (auto elim: Ints_cases)
  have "(1::real) \<le> \<bar>x\<bar>" using False n by (simp flip: of_int_abs) 
  define m where "m = nat (52 - e)"
  have u: "(2::real) powr (of_int e - 52) = 1 / 2 ^ m"
  proof -
    have "of_int e - 52 = - real m" using e53 by (simp add: m_def)
    then show ?thesis by (simp add: powr_minus powr_realpow divide_inverse)
  qed
  have "x / (1 / 2 ^ m) = of_int (n * 2 ^ m)" by (simp add: n)
  then have "round_even (x / (1 / 2 ^ m)) = n * 2 ^ m"
    by (simp only: round_even_of_int)
  with binary64_at [OF lo hi] u show ?thesis by (simp add: n)
qed

lemma binary64_big:
  assumes "2 ^ 53 \<le> \<bar>x\<bar>" and "\<bar>x\<bar> < 2 ^ 54"
  shows "binary64 x = 2 * of_int (round_even (x / 2))"
proof -
  have "2 powr of_int 53 \<le> \<bar>x\<bar>" "\<bar>x\<bar> < 2 powr (of_int 53 + 1)"
    using assms by (simp_all add: powr_realpow [symmetric])
  from binary64_at [OF this] show ?thesis by simp
qed

lemma binary64_1e16: "binary64 10000000000000000 = 10000000000000000"
  by (simp add: binary64_big round_even_def)

lemma binary64_m1e16: "binary64 (- 10000000000000000) = - 10000000000000000"
  by (simp add: binary64_big round_even_def)

lemma binary64_1e16p1: "binary64 10000000000000001 = 10000000000000000"
  by (simp add: binary64_big round_even_def)

lemma binary64_one: "binary64 1 = 1"
  using binary64_int [of 1] by simp

lemma elab_add_fp_fold:
  "fold (elab_add_fp rnd j) [0..<n] (s\<lparr>ga := (ga s)(j := 0)\<rparr>) =
     s\<lparr>ga := (ga s)(j := fp_sum rnd (\<lambda>k. FormulaMatrix s j k * soln s k) (nonvolt s) n)\<rparr>"
proof (induction n)
  case 0
  show ?case by simp
next
  case (Suc n)
  show ?case
    apply (subst fold_upt_Suc)
    apply (subst Suc.IH)
    apply (simp add: elab_add_fp_def nonvolt_def)
    done
qed

lemma elab_row_fp_eq:
  "elab_row_fp rnd j s =
     s\<lparr>ga := (ga s)(j := fp_sum rnd (\<lambda>k. FormulaMatrix s j k * soln s k) (nonvolt s)
                             (m_numSpeciesTot s))\<rparr>"
  by (simp add: elab_row_fp_def elab_add_fp_fold)

lemma elab_row_fp_fold:
  "fold (elab_row_fp rnd) [0..<n] s =
     s\<lparr>ga := (\<lambda>j. if j < n
                   then fp_sum rnd (\<lambda>k. FormulaMatrix s j k * soln s k) (nonvolt s)
                          (m_numSpeciesTot s)
                   else ga s j)\<rparr>"
proof (induction n)
  case 0
  show ?case by simp
next
  case (Suc n)
  have nv: "\<And>g. nonvolt (s\<lparr>ga := g\<rparr>) = nonvolt s"
    by (simp add: nonvolt_def fun_eq_iff)
  show ?case
    apply (subst fold_upt_Suc)
    apply (subst Suc.IH)
    apply (simp add: elab_row_fp_eq nv fun_eq_iff less_Suc_eq)
    done
qed

lemma vcs_elab_fp_eq:
  "vcs_elab_fp rnd s =
     s\<lparr>ga := (\<lambda>j. if j < m_numElemConstraints s
                   then fp_sum rnd (\<lambda>k. FormulaMatrix s j k * soln s k) (nonvolt s)
                          (m_numSpeciesTot s)
                   else ga s j)\<rparr>"
  unfolding vcs_elab_fp_def by (rule elab_row_fp_fold)

lemma elabPhase_add_fp_fold:
  "fold (elabPhase_add_fp rnd s iphase j) [0..<n] (e(j := 0)) =
     e(j := fp_sum rnd (\<lambda>k. FormulaMatrix s j k * soln s k)
              (\<lambda>k. nonvolt s k \<and> PhaseID s k = iphase) n)"
proof (induction n)
  case 0
  show ?case by simp
next
  case (Suc n)
  show ?case
    apply (subst fold_upt_Suc)
    apply (subst Suc.IH)
    apply (simp add: elabPhase_add_fp_def nonvolt_def fun_eq_iff)
    done
qed

lemma elabPhase_row_fp_fold:
  "fold (elabPhase_row_fp rnd s iphase) [0..<n] e =
     (\<lambda>j. if j < n
          then fp_sum rnd (\<lambda>k. FormulaMatrix s j k * soln s k)
                 (\<lambda>k. nonvolt s k \<and> PhaseID s k = iphase) (m_numSpeciesTot s)
          else e j)"
proof (induction n)
  case 0
  show ?case by simp
next
  case (Suc n)
  show ?case
    apply (subst fold_upt_Suc)
    apply (subst Suc.IH)
    apply (simp add: elabPhase_row_fp_def elabPhase_add_fp_fold fun_eq_iff less_Suc_eq)
    done
qed

lemma vcs_elabPhase_fp_eq:
  "vcs_elabPhase_fp rnd s iphase e =
     (\<lambda>j. if j < m_numElemConstraints s
          then fp_sum rnd (\<lambda>k. FormulaMatrix s j k * soln s k)
                 (\<lambda>k. nonvolt s k \<and> PhaseID s k = iphase) (m_numSpeciesTot s)
          else e j)"
  unfolding vcs_elabPhase_fp_def by (rule elabPhase_row_fp_fold)

lemma fp_sum_3:
  "fp_sum rnd p sel 3 =
     (let a = (if sel 0 then rnd (0 + rnd (p 0)) else 0);
          b = (if sel 1 then rnd (a + rnd (p 1)) else a)
      in if sel 2 then rnd (b + rnd (p 2)) else b)"
  by (simp add: eval_nat_numeral)

lemma fp_sum_id: "fp_sum (\<lambda>x. x) p sel n = (\<Sum>k<n. if sel k then p k else 0)"
  by (induction n) simp_all

lemma vcs_elab_fp_id: "vcs_elab_fp (\<lambda>x. x) s = vcs_elab s"
proof -
  have "fp_sum (\<lambda>x. x) (\<lambda>k. FormulaMatrix s j k * soln s k) (nonvolt s) (m_numSpeciesTot s)
      = abundance s j" for j
    by (simp add: fp_sum_id abundance_def sum_filter_upto)
  then show ?thesis by (simp add: vcs_elab_fp_eq vcs_elab_eq cong: if_cong)
qed

lemma fp_sum_exact:
  assumes "\<forall>A. A \<subseteq> {k. k < n \<and> sel k} \<longrightarrow> rnd (\<Sum>k\<in>A. p k) = (\<Sum>k\<in>A. p k)"
  shows "fp_sum rnd p sel n = (\<Sum>k \<in> {k. k < n \<and> sel k}. p k)"
  using assms
proof (induction n)
  case 0
  show ?case by simp
next
  case (Suc n)
  have sub: "{k. k < n \<and> sel k} \<subseteq> {k. k < Suc n \<and> sel k}" by auto
  have "\<forall>A. A \<subseteq> {k. k < n \<and> sel k} \<longrightarrow> rnd (\<Sum>k\<in>A. p k) = (\<Sum>k\<in>A. p k)"
  proof (intro allI impI)
    fix A assume "A \<subseteq> {k. k < n \<and> sel k}"
    with sub have "A \<subseteq> {k. k < Suc n \<and> sel k}" by (rule order_trans [rotated])
    with Suc.prems show "rnd (\<Sum>k\<in>A. p k) = (\<Sum>k\<in>A. p k)" by blast
  qed
  then have IH: "fp_sum rnd p sel n = (\<Sum>k \<in> {k. k < n \<and> sel k}. p k)"
    by (rule Suc.IH)
  show ?case
  proof (cases "sel n")
    case False
    then have "{k. k < Suc n \<and> sel k} = {k. k < n \<and> sel k}"
      by (auto simp add: less_Suc_eq)
    with False IH show ?thesis by simp
  next
    case True
    then have eq: "{k. k < Suc n \<and> sel k} = insert n {k. k < n \<and> sel k}"
      by (auto simp add: less_Suc_eq)
    have "{n} \<subseteq> {k. k < Suc n \<and> sel k}" using True by simp
    with Suc.prems have "rnd (\<Sum>k\<in>{n}. p k) = (\<Sum>k\<in>{n}. p k)" by blast
    then have one: "rnd (p n) = p n" by simp
    from Suc.prems have all: "rnd (\<Sum>k \<in> {k. k < Suc n \<and> sel k}. p k)
        = (\<Sum>k \<in> {k. k < Suc n \<and> sel k}. p k)" by blast
    have s: "(\<Sum>k \<in> {k. k < Suc n \<and> sel k}. p k) = (\<Sum>k \<in> {k. k < n \<and> sel k}. p k) + p n"
      unfolding eq by simp
    from True IH one all s show ?thesis by simp
  qed
qed

lemma abundancePhase_sum:
  assumes "\<forall>i < m_numSpeciesTot s. PhaseID s i < NPhase s"
  shows "(\<Sum>iphase < NPhase s. abundancePhase s iphase j) = abundance s j"
proof -
  let ?f = "\<lambda>k. FormulaMatrix s j k * soln s k"
  have "(\<Sum>iphase < NPhase s. abundancePhase s iphase j)
      = (\<Sum>iphase < NPhase s. \<Sum>k < m_numSpeciesTot s.
            if nonvolt s k \<and> PhaseID s k = iphase then ?f k else 0)"
    by (simp add: abundancePhase_def sum_filter_upto)
  also have "\<dots> = (\<Sum>k < m_numSpeciesTot s. \<Sum>iphase < NPhase s.
            if nonvolt s k \<and> PhaseID s k = iphase then ?f k else 0)"
    by (rule sum.swap)
  also have "\<dots> = (\<Sum>k < m_numSpeciesTot s. if nonvolt s k then ?f k else 0)"
  proof (rule sum.cong)
    fix k assume "k \<in> {..<m_numSpeciesTot s}"
    with assms have p: "PhaseID s k \<in> {..<NPhase s}" by simp
    have "(\<Sum>iphase < NPhase s. if nonvolt s k \<and> PhaseID s k = iphase then ?f k else 0)
        = (\<Sum>iphase < NPhase s. if PhaseID s k = iphase
                                 then (if nonvolt s k then ?f k else 0) else 0)"
      by (rule sum.cong) auto
    also have "\<dots> = (if nonvolt s k then ?f k else 0)"
      using p by (simp add: sum.delta')
    finally show "(\<Sum>iphase < NPhase s. if nonvolt s k \<and> PhaseID s k = iphase then ?f k else 0)
        = (if nonvolt s k then ?f k else 0)" .
  qed simp
  also have "\<dots> = abundance s j"
    by (simp add: abundance_def sum_filter_upto)
  finally show ?thesis .
qed

section \<open>Claims about the evaluator\<close>

text \<open>
  C5: for every mole-number vector and formula matrix, \<^verbatim>\<open>vcs_elab\<close> writes for each
  constraint \<open>i\<close> exactly the sum, over the species \<open>k\<close> whose unknown type is not
  interfacial voltage, of \<open>FormulaMatrix[i][k] * soln[k]\<close>; the coefficients of the
  voltage species do not matter (any formula matrix that agrees on the other species gives
  the same abundances); and nothing but the vector \<open>ga\<close> is changed.
\<close>

theorem vcs_elab_sums:
  "(\<forall>i < m_numElemConstraints s.
      ga (vcs_elab s) i =
        (\<Sum>k \<in> {k. k < m_numSpeciesTot s \<and>
                    SpeciesUnknownType s k \<noteq> VCS_SPECIES_TYPE_INTERFACIALVOLTAGE}.
           FormulaMatrix s i k * soln s k)) \<and>
   (\<forall>fm. (\<forall>i k. SpeciesUnknownType s k \<noteq> VCS_SPECIES_TYPE_INTERFACIALVOLTAGE
               \<longrightarrow> fm i k = FormulaMatrix s i k)
        \<longrightarrow> (\<forall>i < m_numElemConstraints s.
               ga (vcs_elab (s\<lparr>FormulaMatrix := fm\<rparr>)) i = ga (vcs_elab s) i)) \<and>
   vcs_elab s = s\<lparr>ga := ga (vcs_elab s)\<rparr>"
proof (intro conjI allI impI)
  fix i assume "i < m_numElemConstraints s"
  then show "ga (vcs_elab s) i =
        (\<Sum>k \<in> {k. k < m_numSpeciesTot s \<and>
                    SpeciesUnknownType s k \<noteq> VCS_SPECIES_TYPE_INTERFACIALVOLTAGE}.
           FormulaMatrix s i k * soln s k)"
    by (simp add: vcs_elab_eq abundance_def nonvolt_def)
next
  fix fm i
  assume fm: "\<forall>i k. SpeciesUnknownType s k \<noteq> VCS_SPECIES_TYPE_INTERFACIALVOLTAGE
               \<longrightarrow> fm i k = FormulaMatrix s i k"
    and i: "i < m_numElemConstraints s"
  have "abundance (s\<lparr>FormulaMatrix := fm\<rparr>) i = abundance s i"
    unfolding abundance_def nonvolt_def using fm by (auto intro!: sum.cong)
  with i show "ga (vcs_elab (s\<lparr>FormulaMatrix := fm\<rparr>)) i = ga (vcs_elab s) i"
    by (simp add: vcs_elab_eq)
next
  show "vcs_elab s = s\<lparr>ga := ga (vcs_elab s)\<rparr>"
    by (simp add: vcs_elab_eq)
qed

lemma ex_voltage_sum:
  "(\<Sum>k \<in> {k. k < m_numSpeciesTot ex_voltage \<and>
                    SpeciesUnknownType ex_voltage k \<noteq> VCS_SPECIES_TYPE_INTERFACIALVOLTAGE}.
           FormulaMatrix ex_voltage 0 k * soln ex_voltage k) = 6"
  by (simp add: sum_filter_upto ex_voltage_def vcs_blank_def lessThan_Suc eval_nat_numeral)

theorem vcs_elab_sums_witness:
  "ga (vcs_elab ex_voltage) 0 = 6 \<and>
   ga (vcs_elab (ex_voltage\<lparr>FormulaMatrix := (\<lambda>_ _. 0)(0 := (\<lambda>_. 0)(0 := 2, 1 := 0))\<rparr>)) 0 = 6 \<and>
   vcs_elab ex_voltage = ex_voltage\<lparr>ga := ga (vcs_elab ex_voltage)\<rparr>"
proof -
  have E: "0 < m_numElemConstraints ex_voltage"
    by (simp add: ex_voltage_def vcs_blank_def)
  have fm: "\<forall>i k. SpeciesUnknownType ex_voltage k \<noteq> VCS_SPECIES_TYPE_INTERFACIALVOLTAGE
       \<longrightarrow> ((\<lambda>_ _. 0)(0 := (\<lambda>_. 0)(0 := 2, 1 := 0))) i k = FormulaMatrix ex_voltage i k"
    by (simp add: ex_voltage_def vcs_blank_def)
  from vcs_elab_sums [of ex_voltage]
  have a: "\<forall>i < m_numElemConstraints ex_voltage.
      ga (vcs_elab ex_voltage) i =
        (\<Sum>k \<in> {k. k < m_numSpeciesTot ex_voltage \<and>
                    SpeciesUnknownType ex_voltage k \<noteq> VCS_SPECIES_TYPE_INTERFACIALVOLTAGE}.
           FormulaMatrix ex_voltage i k * soln ex_voltage k)"
    and b: "\<forall>fm. (\<forall>i k. SpeciesUnknownType ex_voltage k \<noteq> VCS_SPECIES_TYPE_INTERFACIALVOLTAGE
               \<longrightarrow> fm i k = FormulaMatrix ex_voltage i k)
        \<longrightarrow> (\<forall>i < m_numElemConstraints ex_voltage.
               ga (vcs_elab (ex_voltage\<lparr>FormulaMatrix := fm\<rparr>)) i = ga (vcs_elab ex_voltage) i)"
    and c: "vcs_elab ex_voltage = ex_voltage\<lparr>ga := ga (vcs_elab ex_voltage)\<rparr>"
    by blast+
  from a E ex_voltage_sum have a': "ga (vcs_elab ex_voltage) 0 = 6" by simp
  from b fm E have "ga (vcs_elab (ex_voltage\<lparr>FormulaMatrix := (\<lambda>_ _. 0)(0 := (\<lambda>_. 0)(0 := 2, 1 := 0))\<rparr>)) 0
      = ga (vcs_elab ex_voltage) 0" by blast
  with a' c show ?thesis by simp
qed

text \<open>
  C10 as stated fails: on \<open>ex_rounding\<close> the mole numbers are binary64 numbers and
  every species belongs to one of the two phases. The evaluator adds \<open>1e16\<close>, \<open>1\<close>
  and \<open>-1e16\<close> in this order; \<open>1e16 + 1\<close> is not a binary64 number and is rounded
  to \<open>1e16\<close>, so the total is 0. Phase 0 holds the species 0 and 2 and its abundance
  is 0, phase 1 holds species 1 and its abundance is 1: the abundances of the phases add
  up to 1.
\<close>

theorem elabPhase_sum_rounding_counterexample:
  "binary64 (soln ex_rounding 0) = soln ex_rounding 0 \<and>
   binary64 (soln ex_rounding 1) = soln ex_rounding 1 \<and>
   binary64 (soln ex_rounding 2) = soln ex_rounding 2 \<and>
   PhaseID ex_rounding 0 < NPhase ex_rounding \<and>
   PhaseID ex_rounding 1 < NPhase ex_rounding \<and>
   PhaseID ex_rounding 2 < NPhase ex_rounding \<and>
   vcs_elabPhase_fp binary64 ex_rounding 0 (\<lambda>_. 0) 0 = 0 \<and>
   vcs_elabPhase_fp binary64 ex_rounding 1 (\<lambda>_. 0) 0 = 1 \<and>
   ga (vcs_elab_fp binary64 ex_rounding) 0 = 0 \<and>
   vcs_elabPhase_fp binary64 ex_rounding 0 (\<lambda>_. 0) 0 +
     vcs_elabPhase_fp binary64 ex_rounding 1 (\<lambda>_. 0) 0
     \<noteq> ga (vcs_elab_fp binary64 ex_rounding) 0"
  by (simp add: vcs_elabPhase_fp_eq vcs_elab_fp_eq ex_rounding_def vcs_blank_def nonvolt_def
      fp_sum_3 binary64_zero binary64_one binary64_1e16 binary64_m1e16 binary64_1e16p1)

text \<open>
  C10, amended: when every species belongs to one of the phases \<open>0 \<dots> NPhase - 1\<close> and,
  for every constraint \<open>j\<close>, the sum of every subset of the products
  \<open>FormulaMatrix[j][k] * soln[k]\<close> of the species that are not voltages is a binary64
  number (so that no multiplication and no addition of either routine rounds), the
  per-phase abundance vectors of \<^verbatim>\<open>vcs_elabPhase\<close>, summed over the phases, are for
  every constraint the abundance \<^verbatim>\<open>vcs_elab\<close> computes (the buffer each call is
  given does not matter).
\<close>

theorem elabPhase_sum_unrounded:
  assumes ph: "\<forall>i < m_numSpeciesTot s. PhaseID s i < NPhase s"
    and ex: "\<forall>j < m_numElemConstraints s.
          \<forall>A. A \<subseteq> {k. k < m_numSpeciesTot s \<and>
                        SpeciesUnknownType s k \<noteq> VCS_SPECIES_TYPE_INTERFACIALVOLTAGE} \<longrightarrow>
            binary64 (\<Sum>k\<in>A. FormulaMatrix s j k * soln s k)
              = (\<Sum>k\<in>A. FormulaMatrix s j k * soln s k)"
  shows "\<forall>j < m_numElemConstraints s.
           (\<Sum>iphase < NPhase s. vcs_elabPhase_fp binary64 s iphase (e iphase) j)
             = ga (vcs_elab_fp binary64 s) j"
proof (intro allI impI)
  fix j assume j: "j < m_numElemConstraints s"
  let ?p = "\<lambda>k. FormulaMatrix s j k * soln s k"
  from ex j have exj: "\<forall>A. A \<subseteq> {k. k < m_numSpeciesTot s \<and> nonvolt s k} \<longrightarrow>
      binary64 (\<Sum>k\<in>A. ?p k) = (\<Sum>k\<in>A. ?p k)"
    by (simp add: nonvolt_def)
  have tot: "fp_sum binary64 ?p (nonvolt s) (m_numSpeciesTot s) = abundance s j"
    unfolding abundance_def by (rule fp_sum_exact) (rule exj)
  have phs: "fp_sum binary64 ?p (\<lambda>k. nonvolt s k \<and> PhaseID s k = iph) (m_numSpeciesTot s)
      = abundancePhase s iph j" for iph
  proof -
    have "\<forall>A. A \<subseteq> {k. k < m_numSpeciesTot s \<and> (nonvolt s k \<and> PhaseID s k = iph)} \<longrightarrow>
        binary64 (\<Sum>k\<in>A. ?p k) = (\<Sum>k\<in>A. ?p k)"
    proof (intro allI impI)
      fix A assume "A \<subseteq> {k. k < m_numSpeciesTot s \<and> (nonvolt s k \<and> PhaseID s k = iph)}"
      then have "A \<subseteq> {k. k < m_numSpeciesTot s \<and> nonvolt s k}" by blast
      with exj show "binary64 (\<Sum>k\<in>A. ?p k) = (\<Sum>k\<in>A. ?p k)" by blast
    qed
    from fp_sum_exact [OF this] show ?thesis by (simp add: abundancePhase_def)
  qed
  have "(\<Sum>iphase < NPhase s. vcs_elabPhase_fp binary64 s iphase (e iphase) j)
      = (\<Sum>iphase < NPhase s. abundancePhase s iphase j)"
    using j by (simp add: vcs_elabPhase_fp_eq phs)
  also have "\<dots> = abundance s j" by (rule abundancePhase_sum [OF ph])
  also have "\<dots> = ga (vcs_elab_fp binary64 s) j"
    using j by (simp add: vcs_elab_fp_eq tot)
  finally show "(\<Sum>iphase < NPhase s. vcs_elabPhase_fp binary64 s iphase (e iphase) j)
      = ga (vcs_elab_fp binary64 s) j" .
qed

lemma binary64_sum_int:
  assumes "finite B" and "A \<subseteq> B" and "\<forall>k\<in>B. p k \<in> \<int>" and "(\<Sum>k\<in>B. \<bar>p k\<bar>) < 2 ^ 53"
  shows "binary64 (\<Sum>k\<in>A. p k) = (\<Sum>k\<in>A. p k)"
proof (rule binary64_int)
  from assms(2,3) show "(\<Sum>k\<in>A. p k) \<in> \<int>" by (auto intro: Ints_sum)
  have "\<bar>\<Sum>k\<in>A. p k\<bar> \<le> (\<Sum>k\<in>A. \<bar>p k\<bar>)" by (rule sum_abs)
  also have "\<dots> \<le> (\<Sum>k\<in>B. \<bar>p k\<bar>)"
    using assms(1,2) by (intro sum_mono2) auto
  finally show "\<bar>\<Sum>k\<in>A. p k\<bar> < 2 ^ 53" using assms(4) by simp
qed

theorem elabPhase_sum_unrounded_witness:
  "vcs_elabPhase_fp binary64 ex_phases 0 (\<lambda>_. 0) 0 +
     vcs_elabPhase_fp binary64 ex_phases 1 (\<lambda>_. 0) 0 = 3 \<and>
   ga (vcs_elab_fp binary64 ex_phases) 0 = 3"
proof -
  have ph: "\<forall>i < m_numSpeciesTot ex_phases. PhaseID ex_phases i < NPhase ex_phases"
    by (simp add: ex_phases_def ex_rounding_def vcs_blank_def)
  have B: "{k. k < m_numSpeciesTot ex_phases \<and>
              SpeciesUnknownType ex_phases k \<noteq> VCS_SPECIES_TYPE_INTERFACIALVOLTAGE} = {..<3}"
    by (auto simp add: ex_phases_def ex_rounding_def vcs_blank_def)
  have ex: "\<forall>j < m_numElemConstraints ex_phases.
          \<forall>A. A \<subseteq> {k. k < m_numSpeciesTot ex_phases \<and>
                        SpeciesUnknownType ex_phases k \<noteq> VCS_SPECIES_TYPE_INTERFACIALVOLTAGE} \<longrightarrow>
            binary64 (\<Sum>k\<in>A. FormulaMatrix ex_phases j k * soln ex_phases k)
              = (\<Sum>k\<in>A. FormulaMatrix ex_phases j k * soln ex_phases k)"
    unfolding B
  proof (intro allI impI)
    fix j A assume "A \<subseteq> {..<(3::nat)}"
    then show "binary64 (\<Sum>k\<in>A. FormulaMatrix ex_phases j k * soln ex_phases k)
              = (\<Sum>k\<in>A. FormulaMatrix ex_phases j k * soln ex_phases k)"
      by (intro binary64_sum_int [of "{..<3}"])
         (simp_all add: ex_phases_def ex_rounding_def vcs_blank_def lessThan_Suc eval_nat_numeral)
  qed
  have E: "0 < m_numElemConstraints ex_phases"
    by (simp add: ex_phases_def ex_rounding_def vcs_blank_def)
  from elabPhase_sum_unrounded [OF ph ex, of "\<lambda>_ _. 0"] E
  have eq: "(\<Sum>iphase < NPhase ex_phases. vcs_elabPhase_fp binary64 ex_phases iphase (\<lambda>_. 0) 0)
      = ga (vcs_elab_fp binary64 ex_phases) 0" by blast
  have N: "NPhase ex_phases = 2" by (simp add: ex_phases_def ex_rounding_def vcs_blank_def)
  have six: "binary64 6 = 6" "binary64 4 = 4" "binary64 2 = 2" "binary64 (- 2) = - 2" "binary64 5 = 5" "binary64 3 = 3"
    using binary64_int [of 6] binary64_int [of 4] binary64_int [of 2] binary64_int [of "- 2"]
       binary64_int [of 5]  binary64_int [of 3] by simp_all
  have "ga (vcs_elab_fp binary64 ex_phases) 0 = 3"
    by (simp add: vcs_elab_fp_eq ex_phases_def ex_rounding_def vcs_blank_def nonvolt_def
      fp_sum_3 binary64_zero binary64_one six)
  with eq N show ?thesis by (simp add: lessThan_Suc eval_nat_numeral)
qed

section \<open>The position switch: what it exchanges\<close>

lemma upt_1_2: "[Suc 0..<2] = [Suc 0]" by (simp add: upt_rec)

lemma sum_upto_1: "(\<Sum>k<(1::nat). f k) = (f 0 :: real)"
  by simp

lemma sum_upto_2: "(\<Sum>k<(2::nat). f k) = (f 0 + f 1 :: real)"
  by (simp add: lessThan_Suc eval_nat_numeral)

lemma abundance_upto:
  "abundance s j =
     (\<Sum>k<m_numSpeciesTot s. if nonvolt s k then FormulaMatrix s j k * soln s k else 0)"
  by (simp add: abundance_def sum_filter_upto)

lemma upt_0_1: "[0..<1] = [0]" by simp
lemma upt_0_2: "[0..<2] = [0, 1]" by (simp add: upt_rec)
lemma upt_0_3: "[0..<3] = [0, 1, 2]" by (simp add: upt_rec)
lemma upt_1_3: "[Suc 0..<3] = [Suc 0, 2]" by (simp add: upt_rec)
lemma upt_2_3: "[2..<3] = [2]" by (simp add: upt_rec)
lemma upt_0_4: "[0..<4] = [0, 1, 2, 3]" by (simp add: upt_rec)
lemma upt_1_4: "[Suc 0..<4] = [Suc 0, 2, 3]" by (simp add: upt_rec)


lemma sum_upto_4: "(\<Sum>k<(4::nat). f k) = (f 0 + f 1 + f 2 + f 3 :: real)"
  by (simp add: lessThan_Suc eval_nat_numeral)
text \<open>
  C2, evaluated: the switch of the positions 0 and 1 on \<open>ex_switch\<close>. The targets
  are exchanged, but the phase's map, which held 0 and 1, holds 0 and 0 afterwards: the
  entry that held \<open>ipos\<close> is set to \<open>jpos\<close> by the first \<^verbatim>\<open>if\<close> and back to
  \<open>ipos\<close> by the second.
\<close>

theorem switch_phase_map_eval:
  "ElGlobalIndex (VPhaseList ex_switch 0) 0 = 0 \<and>
   ElGlobalIndex (VPhaseList ex_switch 0) 1 = 1 \<and>
   ElGlobalIndex (VPhaseList (vcs_switch_elem_pos 0 1 ex_switch) 0) 0 = 0 \<and>
   ElGlobalIndex (VPhaseList (vcs_switch_elem_pos 0 1 ex_switch) 0) 1 = 0 \<and>
   gai (vcs_switch_elem_pos 0 1 ex_switch) 0 = 3 \<and>
   gai (vcs_switch_elem_pos 0 1 ex_switch) 1 = 2"
  by (simp add: vcs_switch_elem_pos_def ex_switch_def vcs_blank_def Let_def upt_0_1 upt_0_2
      switch_phase_def switch_index_def switch_row_def vcsUtil_dsw_def vcsUtil_isw_def
      vcsUtil_stsw_def)

lemma switch_index_fold:
  "fold (switch_index ipos jpos) [0..<n] v =
     v\<lparr>ElGlobalIndex := (\<lambda>e. if e < n \<and> (ElGlobalIndex v e = ipos \<or> ElGlobalIndex v e = jpos)
                              then ipos else ElGlobalIndex v e)\<rparr>"
proof (induction n)
  case 0
  show ?case by simp
next
  case (Suc n)
  show ?case
    apply (subst fold_upt_Suc)
    apply (subst Suc.IH)
    apply (auto simp add: switch_index_def Let_def fun_eq_iff less_Suc_eq)
    done
qed

lemma switch_phase_fold:
  "fold (switch_phase ipos jpos) [0..<n] s =
     s\<lparr>VPhaseList := (\<lambda>iph. if iph < n then switched_phase ipos jpos (VPhaseList s iph)
                               else VPhaseList s iph)\<rparr>"
proof (induction n)
  case 0
  show ?case by simp
next
  case (Suc n)
  show ?case
    apply (subst fold_upt_Suc)
    apply (subst Suc.IH)
    apply (simp add: switch_phase_def Let_def switch_index_fold switched_phase_def
                     fun_eq_iff less_Suc_eq)
    done
qed

lemma switch_row_fold:
  assumes "ipos \<noteq> jpos"
  shows "fold (switch_row ipos jpos) [0..<n] s =
     s\<lparr>FormulaMatrix := (\<lambda>r c. if c < n \<and> r = ipos then FormulaMatrix s jpos c
                                 else if c < n \<and> r = jpos then FormulaMatrix s ipos c
                                 else FormulaMatrix s r c)\<rparr>"
proof (induction n)
  case 0
  show ?case by simp
next
  case (Suc n)
  show ?case
    apply (subst fold_upt_Suc)
    apply (subst Suc.IH)
    using assms
    apply (auto simp add: switch_row_def Let_def fun_eq_iff less_Suc_eq)
    done
qed

lemma vcs_switch_elem_pos_eq:
  assumes "ipos \<noteq> jpos"
  shows "vcs_switch_elem_pos ipos jpos s =
     s\<lparr>VPhaseList := (\<lambda>iph. if iph < NPhase s then switched_phase ipos jpos (VPhaseList s iph)
                               else VPhaseList s iph),
       gai := vcsUtil_dsw (gai s) ipos jpos,
       ga := vcsUtil_dsw (ga s) ipos jpos,
       IndEl := vcsUtil_isw (IndEl s) ipos jpos,
       m_elType := vcsUtil_isw (m_elType s) ipos jpos,
       ElActive := vcsUtil_isw (ElActive s) ipos jpos,
       FormulaMatrix := (\<lambda>r c. if c < m_numSpeciesTot s \<and> r = ipos then FormulaMatrix s jpos c
                                 else if c < m_numSpeciesTot s \<and> r = jpos then FormulaMatrix s ipos c
                                 else FormulaMatrix s r c),
       ElName := vcsUtil_stsw (ElName s) ipos jpos\<rparr>"
  using assms
  by (simp add: vcs_switch_elem_pos_def Let_def switch_phase_fold switch_row_fold
      cong: if_cong)

section \<open>The checker: which species it looks at\<close>

lemma elabcheck_scan_fold_multisign:
  "snd (snd (fold (elabcheck_scan s i) [0..<n] (scale, m, ms))) =
     (ms \<or> (\<exists>k<n. FormulaMatrix s i k < 0))"
proof (induction n)
  case 0
  show ?case by simp
next
  case (Suc n)
  obtain a b c where f: "fold (elabcheck_scan s i) [0..<n] (scale, m, ms) = (a, b, c)"
    by (cases "fold (elabcheck_scan s i) [0..<n] (scale, m, ms)") auto
  with Suc.IH have c: "c = (ms \<or> (\<exists>k<n. FormulaMatrix s i k < 0))" by simp
  show ?case
    apply (subst fold_upt_Suc)
    apply (subst f)
    apply (auto simp add: elabcheck_scan_def Let_def c less_Suc_eq)
    done
qed

text \<open>
  C3, evaluated: on \<open>ex_check\<close> the only species that is not a voltage has a positive
  coefficient, so the row has a single sign among the species that are not voltages, and
  the discrepancy \<open>1e-12\<close> is far above the cutoff (here \<open>1e-140\<close>). The checker
  nevertheless reports compliance: its loop reads the coefficient and the entry of
  \<open>soln\<close> of the voltage species too, takes the row for a multisign row and the
  voltage for the scale.
\<close>

theorem elabcheck_voltage_eval:
  "SpeciesUnknownType ex_check 0 = VCS_SPECIES_TYPE_MOLNUM \<and>
   SpeciesUnknownType ex_check 1 = VCS_SPECIES_TYPE_INTERFACIALVOLTAGE \<and>
   FormulaMatrix ex_check 0 0 = 1 \<and> FormulaMatrix ex_check 0 1 = - 1 \<and>
   gai ex_check 0 = 0 \<and> ga ex_check 0 = ga (vcs_elab ex_check) 0 \<and>
   \<bar>ga ex_check 0 - gai ex_check 0\<bar> > 1 / 10 ^ 140 \<and>
   vcs_elabcheck (1 / 10 ^ 140) ex_check 0 = Inr True \<and>
   vcs_elabcheck (1 / 10 ^ 140) ex_check 1 = Inr True"
  by (simp add: vcs_elabcheck_def ex_check_def vcs_blank_def Let_def upt_0_1 upt_0_2
      elabcheck_scan_def vcs_elab_eq abundance_upto nonvolt_def sum_upto_2)

section \<open>The corrector on the examples\<close>

lemmas elcorr_defs =
  vcs_elcorr_def elcorr_stage1_def elcorr_stage1_row_def elcorr_count_def elcorr_single_def
  elcorr_compcount_def elcorr_compsolve_def elcorr_stage2_def elcorr_bound_row_def
  elcorr_bound_def elcorr_stage3_def elcorr_build_def elcorr_fill_def elcorr_par_def
  elcorr_damped_def elcorr_full_def elcorr_finish_def vcs_elabcheck_def elabcheck_scan_def
  elcorr_stage5_def elcorr_neutral_row_def elcorr_stage6_def elcorr_electron_row_def
  elcorr_useZeroed_def elcorr_shift_def vcs_tmoles_def
  vcs_elab_eq abundance_upto nonvolt_def

lemma ex_compliant_run:
  "map_sum id (\<lambda>(r, s'). r)
     (vcs_elcorr (1 / 10 ^ 140) ex_mlequ reinsert ex_compliant aa x) = Inr (Retn 1)"
  by (simp add: elcorr_defs ex_mlequ_def ex_compliant_def vcs_blank_def Let_def
      upt_0_1 upt_0_2 upt_1_2 sum_upto_1 sum_upto_2)

text \<open>
  C1, evaluated: on \<open>ex_compliant\<close> the abundance is on target before the call
  (\<^verbatim>\<open>vcs_elabcheck\<close> yields true for both scopes), the solve of stage 3 succeeds and
  the call leaves every mole number as it was. The documented status for this is 0; the
  routine returns 1, because the first \<^verbatim>\<open>vcs_elabcheck\<close> after stage 4 sets
  \<^verbatim>\<open>retn = 1\<close> whenever the abundances are compliant.
\<close>

theorem elcorr_compliant_eval:
  "vcs_elabcheck (1 / 10 ^ 140) ex_compliant 0 = Inr True \<and>
   vcs_elabcheck (1 / 10 ^ 140) ex_compliant 1 = Inr True \<and>
   ga (vcs_elab ex_compliant) 0 = ga ex_compliant 0 \<and>
   map_sum id (\<lambda>(r, s'). (r, soln s' 0, soln s' 1, ga s' 0))
     (vcs_elcorr (1 / 10 ^ 140) ex_mlequ reinsert ex_compliant aa x)
     = Inr (Retn 1, soln ex_compliant 0, soln ex_compliant 1, ga ex_compliant 0)"
  by (simp add: elcorr_defs ex_mlequ_def ex_compliant_def vcs_blank_def Let_def
      upt_0_1 upt_0_2 upt_1_2 sum_upto_1 sum_upto_2)

text \<open>
  C4, evaluated: on \<open>ex_negative\<close> the only mole number is 1 on entry. Stage 1 finds a
  row with a single entry and sets the mole number to target over coefficient, which is
  -1; stage 3 shrinks the non-positive value by 1e-4 instead of removing it; no later stage
  touches it. The routine returns 0 with the mole number \<open>-1e-4\<close>.
\<close>

theorem elcorr_negative_eval:
  "soln ex_negative 0 = 1 \<and>
   soln (elcorr_stage1 ex_negative) 0 = - 1 \<and>
   map_sum id (\<lambda>(r, s'). (r, soln s' 0))
     (vcs_elcorr (1 / 10 ^ 140) ex_mlequ reinsert ex_negative aa x)
     = Inr (Retn 0, - (1 / 10 ^ 4))"
  by (simp add: elcorr_defs ex_mlequ_def ex_negative_def vcs_blank_def Let_def
      upt_0_1 upt_0_2 upt_1_2 sum_upto_1 sum_upto_2)

section \<open>The corrector: what it leaves alone\<close>

lemma same_problem_refl: "same_problem s s"
  by (simp add: same_problem_def)

lemma same_problem_trans: "same_problem a b \<Longrightarrow> same_problem b c \<Longrightarrow> same_problem a c"
  by (simp add: same_problem_def)

lemma same_problem_constraints: "same_problem s s' \<Longrightarrow> same_constraints s s'"
  by (simp add: same_problem_def same_constraints_def)

lemma same_constraints_refl: "same_constraints s s"
  by (simp add: same_constraints_def)

lemma same_constraints_trans:
  "same_constraints a b \<Longrightarrow> same_constraints b c \<Longrightarrow> same_constraints a c"
  by (simp add: same_constraints_def)

lemma same_problem_fold:
  assumes "\<And>i t. same_problem t (f i t)"
  shows "same_problem s (fold f xs s)"
proof (induction xs arbitrary: s)
  case Nil
  show ?case by (simp add: same_problem_refl)
next
  case (Cons a xs)
  have "same_problem s (f a s)" by (rule assms)
  moreover have "same_problem (f a s) (fold f xs (f a s))" by (rule Cons.IH)
  ultimately show ?case by (auto intro: same_problem_trans)
qed

lemma same_problem_fold_fst:
  assumes "\<And>i t c. same_problem t (fst (f i (t, c)))"
  shows "same_problem s (fst (fold f xs (s, c)))"
proof (induction xs arbitrary: s c)
  case Nil
  show ?case by (simp add: same_problem_refl)
next
  case (Cons a xs)
  obtain t d where fa: "f a (s, c) = (t, d)" by (cases "f a (s, c)") auto
  have "same_problem s (fst (f a (s, c)))" by (rule assms)
  with fa have 1: "same_problem s t" by simp
  have "same_problem t (fst (fold f xs (t, d)))" by (rule Cons.IH)
  with 1 fa show ?case by (auto intro: same_problem_trans)
qed

lemma same_problem_elab: "same_problem s (vcs_elab s)"
  by (simp add: vcs_elab_eq same_problem_def)

lemma same_problem_tmoles: "same_problem s (vcs_tmoles s)"
  by (simp add: vcs_tmoles_def same_problem_def)

lemma same_problem_single: "same_problem t (fst (elcorr_single i k (t, c)))"
  by (simp add: elcorr_single_def Let_def same_problem_def)

lemma same_problem_compsolve:
  "same_problem t (fst (snd (fold (elcorr_compsolve i cid) xs (d, t, c))))"
proof (induction xs arbitrary: d t c)
  case Nil
  show ?case by (simp add: same_problem_refl)
next
  case (Cons a xs)
  obtain d' t' c' where fa: "elcorr_compsolve i cid a (d, t, c) = (d', t', c')"
    by (cases "elcorr_compsolve i cid a (d, t, c)") auto
  then have "same_problem t t'"
    by (auto simp add: elcorr_compsolve_def Let_def same_problem_def)
  moreover have "same_problem t' (fst (snd (fold (elcorr_compsolve i cid) xs (d', t', c'))))"
    by (rule Cons.IH)
  ultimately show ?case using fa by (auto intro: same_problem_trans)
qed

lemma same_problem_stage1_row: "same_problem t (fst (elcorr_stage1_row i (t, c)))"
proof -
  have a: "same_problem t (fst (fold (elcorr_single i) xs (t, c)))" for xs
    by (rule same_problem_fold_fst) (rule same_problem_single)
  show ?thesis
    by (simp add: elcorr_stage1_row_def split_beta a same_problem_compsolve same_problem_refl)
qed

lemma same_problem_stage1: "same_problem s (elcorr_stage1 s)"
proof -
  let ?r = "fold elcorr_stage1_row [0..<m_numElemConstraints s] (s, False)"
  have a: "same_problem s (fst ?r)"
    by (rule same_problem_fold_fst) (rule same_problem_stage1_row)
  have b: "same_problem s (vcs_elab (fst ?r))"
    by (rule same_problem_trans [OF a same_problem_elab])
  show ?thesis
    by (simp add: elcorr_stage1_def split_beta a b)
qed

lemma same_problem_bound: "same_problem t (fst (elcorr_bound cutoff i k (t, c)))"
  by (simp add: elcorr_bound_def Let_def same_problem_def)

lemma same_problem_bound_row: "same_problem t (fst (elcorr_bound_row cutoff i (t, c)))"
proof -
  have "same_problem t (fst (fold (elcorr_bound cutoff i) xs (t, c)))" for xs
    by (rule same_problem_fold_fst) (rule same_problem_bound)
  then show ?thesis by (simp add: elcorr_bound_row_def same_problem_refl)
qed

lemma same_problem_stage2: "same_problem s (elcorr_stage2 cutoff s)"
proof -
  let ?r = "fold (elcorr_bound_row cutoff) [0..<m_numElemConstraints s] (s, False)"
  have a: "same_problem s (fst ?r)"
    by (rule same_problem_fold_fst) (rule same_problem_bound_row)
  have b: "same_problem s (vcs_elab (fst ?r))"
    by (rule same_problem_trans [OF a same_problem_elab])
  show ?thesis
    by (simp add: elcorr_stage2_def split_beta a b)
qed

lemma same_problem_damped: "same_problem t (elcorr_damped par x i t)"
  by (simp add: elcorr_damped_def Let_def same_problem_def)

lemma same_problem_full: "same_problem t (elcorr_full x i t)"
  by (simp add: elcorr_full_def Let_def same_problem_def)

lemma elcorr_build_retn:
  "retn \<in> {0, 1} \<Longrightarrow> snd (snd (fold (elcorr_build s) xs (aa, x, retn))) \<in> {0, 1}"
proof (induction xs arbitrary: aa x retn)
  case Nil
  then show ?case by simp
next
  case (Cons a xs)
  obtain aa' x' r' where fa: "elcorr_build s a (aa, x, retn) = (aa', x', r')"
    by (cases "elcorr_build s a (aa, x, retn)") auto
  with Cons.prems have "r' \<in> {0, 1}"
    by (auto simp add: elcorr_build_def Let_def split: if_splits)
  from Cons.IH [OF this] fa show ?case by simp
qed

lemma elcorr_stage3_facts:
  assumes "elcorr_stage3 mlequ s aa x = Some (retn, s3)"
  shows "same_problem s s3 \<and> retn \<in> {0, 1, 2}"
proof -
  obtain aa1 x1 r1 where b: "fold (elcorr_build s) [0..<m_numComponents s] (aa, x, 0) = (aa1, x1, r1)"
    by (cases "fold (elcorr_build s) [0..<m_numComponents s] (aa, x, 0)") auto
  have r1: "r1 \<in> {0, 1}"
    using elcorr_build_retn [of 0 s "[0..<m_numComponents s]" aa x] b by simp
  obtain st x2 where
    m: "mlequ aa1 (m_numElemConstraints s) (m_numComponents s) x1 (Suc 0) = (st, x2)"
    by (cases "mlequ aa1 (m_numElemConstraints s) (m_numComponents s) x1 (Suc 0)") auto
  have d: "same_problem s (vcs_tmoles (vcs_elab (fold (elcorr_damped p x2) xs s)))" for p xs
    by (blast intro: same_problem_trans same_problem_tmoles same_problem_elab
          same_problem_fold same_problem_damped)
  have f: "same_problem s (vcs_tmoles (vcs_elab (fold (elcorr_full x2) xs s)))" for xs
    by (blast intro: same_problem_trans same_problem_tmoles same_problem_elab
          same_problem_fold same_problem_full)
  from assms r1 show ?thesis
    by (auto simp add: elcorr_stage3_def b m Let_def d f split: if_splits)
qed


lemma same_problem_shift: "same_problem s (elcorr_shift k d s)"
proof -
  have "same_problem s (if soln (s\<lparr>soln := (soln s)(k := soln s k + d)\<rparr>) k < 0
          then s\<lparr>soln := (soln s)(k := soln s k + d)\<rparr>
                \<lparr>soln := (soln (s\<lparr>soln := (soln s)(k := soln s k + d)\<rparr>))(k := 0)\<rparr>
          else s\<lparr>soln := (soln s)(k := soln s k + d)\<rparr>)"
    by (simp add: same_problem_def)
  then show ?thesis
    unfolding elcorr_shift_def Let_def
    by (rule same_problem_trans [OF _ same_problem_elab])
qed

lemma same_problem_neutral: "same_problem s (elcorr_neutral i xs s)"
  by (induction xs) (simp_all add: same_problem_refl same_problem_shift)

lemma same_problem_neutral_row: "same_problem s (elcorr_neutral_row i s)"
  by (simp add: elcorr_neutral_row_def same_problem_refl same_problem_neutral)

lemma same_problem_stage5: "same_problem s (elcorr_stage5 s)"
  unfolding elcorr_stage5_def
  by (rule same_problem_fold) (rule same_problem_neutral_row)

lemma same_problem_electron: "same_problem s (elcorr_electron i dev uz xs s)"
  by (induction xs) (auto simp add: same_problem_refl same_problem_shift)

lemma same_problem_electron_row: "same_problem s (elcorr_electron_row i s)"
  by (simp add: elcorr_electron_row_def Let_def same_problem_refl same_problem_electron)

lemma same_problem_stage6: "same_problem s (elcorr_stage6 s)"
  unfolding elcorr_stage6_def
  by (rule same_problem_fold) (rule same_problem_electron_row)

lemma elcorr_finish_facts:
  assumes "elcorr_finish cutoff retn s = Inr (r, s')"
  shows "same_problem s s' \<and> (r = Retn 1 \<or> r = Retn retn)"
proof -
  have 1: "same_problem s (vcs_tmoles s)" by (rule same_problem_tmoles)
  have 5: "same_problem s (vcs_tmoles (elcorr_stage5 s))"
    by (rule same_problem_trans [OF same_problem_stage5 same_problem_tmoles])
  have 6: "same_problem s (vcs_tmoles (elcorr_stage6 (elcorr_stage5 s)))"
    by (rule same_problem_trans [OF same_problem_stage5
          same_problem_trans [OF same_problem_stage6 same_problem_tmoles]])
  from assms 1 5 6 show ?thesis
    by (auto simp add: elcorr_finish_def Let_def split: sum.splits if_splits)
qed

lemma elcorr_adhoc_facts:
  "(\<not> snd (elcorr_adhoc reinsert xs s) \<longrightarrow> same_problem s (fst (elcorr_adhoc reinsert xs s))) \<and>
   (snd (elcorr_adhoc reinsert xs s) \<longrightarrow>
      (\<exists>k t. same_problem s t \<and> m_numSpeciesRdc t \<le> k \<and>
             same_problem (reinsert k t) (fst (elcorr_adhoc reinsert xs s))))"
proof (induction xs arbitrary: s)
  case Nil
  show ?case by (simp add: same_problem_refl)
next
  case (Cons kspec rest)
  show ?case
  proof (cases "SpeciesUnknownType s kspec = VCS_SPECIES_TYPE_INTERFACIALVOLTAGE \<or>
                \<not> elcorr_goodSpec s kspec [0..<m_numComponents s] 0")
    case True
    then have "elcorr_adhoc reinsert (kspec # rest) s = elcorr_adhoc reinsert rest s"
      by auto
    with Cons.IH [of s] show ?thesis by simp
  next
    case False
    obtain xx0 its where av: "fold (elcorr_average s kspec) [0..<m_numComponents s] (0, 0) = (xx0, its)"
      by (cases "fold (elcorr_average s kspec) [0..<m_numComponents s] (0, 0)") auto
    define xx where "xx = (if its > 0 then xx0 / real its else xx0)"
    define s1 where "s1 = s\<lparr>soln := (soln s)(kspec := soln s kspec + xx)\<rparr>"
    define s2 where "s2 = s1\<lparr>soln := (soln s1)(kspec := max (soln s1 kspec) (1 / 10 ^ 10))\<rparr>"
    have p2: "same_problem s s2" by (simp add: s2_def s1_def same_problem_def)
    show ?thesis
    proof (cases "kspec \<ge> m_numSpeciesRdc s2")
      case True
      define s3 where "s3 = reinsert kspec s2"
      define s4 where "s4 = s3\<lparr>soln := (soln s3)(m_numSpeciesRdc s3 - 1 := xx)\<rparr>"
      have e: "elcorr_adhoc reinsert (kspec # rest) s = (vcs_elab s4, True)"
        using False True
        by (simp add: av Let_def xx_def s1_def s2_def s3_def s4_def)
      have "same_problem s3 s4" by (simp add: s4_def same_problem_def)
      then have "same_problem (reinsert kspec s2) (vcs_elab s4)"
        unfolding s3_def [symmetric] by (rule same_problem_trans [OF _ same_problem_elab])
      with p2 True
      have "\<exists>k t. same_problem s t \<and> m_numSpeciesRdc t \<le> k \<and>
                  same_problem (reinsert k t) (vcs_elab s4)"
        by blast
      with e show ?thesis by simp
    next
      case nd: False
      have e: "elcorr_adhoc reinsert (kspec # rest) s = elcorr_adhoc reinsert rest (vcs_elab s2)"
        using False nd
        by (simp add: av Let_def xx_def s1_def s2_def)
      have p: "same_problem s (vcs_elab s2)"
        by (rule same_problem_trans [OF p2 same_problem_elab])
      note IH = Cons.IH [of "vcs_elab s2"]
      show ?thesis
        unfolding e
      proof (intro conjI impI)
        assume "\<not> snd (elcorr_adhoc reinsert rest (vcs_elab s2))"
        with IH have "same_problem (vcs_elab s2) (fst (elcorr_adhoc reinsert rest (vcs_elab s2)))"
          by blast
        with p show "same_problem s (fst (elcorr_adhoc reinsert rest (vcs_elab s2)))"
          by (rule same_problem_trans)
      next
        assume "snd (elcorr_adhoc reinsert rest (vcs_elab s2))"
        with IH obtain k t where kt: "same_problem (vcs_elab s2) t" "m_numSpeciesRdc t \<le> k"
          "same_problem (reinsert k t) (fst (elcorr_adhoc reinsert rest (vcs_elab s2)))"
          by blast
        from same_problem_trans [OF p kt(1)] kt(2,3)
        show "\<exists>k t. same_problem s t \<and> m_numSpeciesRdc t \<le> k \<and>
             same_problem (reinsert k t) (fst (elcorr_adhoc reinsert rest (vcs_elab s2)))"
          by blast
      qed
    qed
  qed
qed

lemma vcs_elcorr_facts:
  assumes r: "vcs_elcorr cutoff mlequ reinsert s aa x = Inr (r, s')"
  shows "(same_problem s s' \<or>
          (\<exists>k t. same_problem s t \<and> m_numSpeciesRdc t \<le> k \<and> same_problem (reinsert k t) s')) \<and>
         (r = VCS_FAILED_CONVERGENCE \<or> r = Retn 0 \<or> r = Retn 1 \<or> r = Retn 2)"
proof -
  define s2 where "s2 = elcorr_stage2 cutoff (elcorr_stage1 s)"
  have p2: "same_problem s s2"
    unfolding s2_def by (rule same_problem_trans [OF same_problem_stage1 same_problem_stage2])
  show ?thesis
  proof (cases "elcorr_stage3 mlequ s2 aa x")
    case None
    with r have "r = VCS_FAILED_CONVERGENCE" "s' = s2"
      by (simp_all add: vcs_elcorr_def Let_def s2_def)
    with p2 show ?thesis by simp
  next
    case (Some a)
    obtain retn s3 where a: "a = (retn, s3)" by (cases a) auto
    from elcorr_stage3_facts [of mlequ s2 aa x retn s3] Some a
    have p3: "same_problem s2 s3" and rn: "retn \<in> {0, 1, 2}" by simp_all
    have c3: "same_problem s s3" by (rule same_problem_trans [OF p2 p3])
    define q where "q = (if retn \<ge> 2 then elcorr_adhoc reinsert [0..<m_numSpeciesTot s3] s3
                         else (s3, False))"
    obtain s4 jumped where q: "q = (s4, jumped)" by (cases q) auto
    have p4: "\<not> jumped \<Longrightarrow> same_problem s3 s4"
      and j4: "jumped \<Longrightarrow> \<exists>k t. same_problem s3 t \<and> m_numSpeciesRdc t \<le> k \<and>
                                 same_problem (reinsert k t) s4"
      using elcorr_adhoc_facts [of reinsert "[0..<m_numSpeciesTot s3]" s3] q
      by (auto simp add: q_def same_problem_refl split: if_splits)
    show ?thesis
    proof (cases jumped)
      case True
      with r Some a q have e: "r = Retn retn" "s' = vcs_tmoles s4"
        by (simp_all add: vcs_elcorr_def Let_def s2_def [symmetric] q_def [symmetric])
      from j4 [OF True] obtain k t where kt: "same_problem s3 t" "m_numSpeciesRdc t \<le> k"
        "same_problem (reinsert k t) s4" by blast
      have "same_problem s t" by (rule same_problem_trans [OF c3 kt(1)])
      moreover have "same_problem (reinsert k t) s'"
        unfolding e by (rule same_problem_trans [OF kt(3) same_problem_tmoles])
      ultimately have "\<exists>k t. same_problem s t \<and> m_numSpeciesRdc t \<le> k \<and>
          same_problem (reinsert k t) s'" using kt(2) by blast
      with e rn show ?thesis by auto
    next
      case False
      with r Some a q have f: "elcorr_finish cutoff retn s4 = Inr (r, s')"
        by (simp add: vcs_elcorr_def Let_def s2_def [symmetric] q_def [symmetric])
      from elcorr_finish_facts [OF f] have "same_problem s4 s'" and "r = Retn 1 \<or> r = Retn retn"
        by simp_all
      moreover from p4 [OF False] c3 \<open>same_problem s4 s'\<close> have "same_problem s s'"
        by (blast intro: same_problem_trans)
      ultimately show ?thesis using rn by auto
    qed
  qed
qed

lemma vcs_reinsert_deleted_frame:
  "gai (vcs_reinsert_deleted k t) = gai t \<and>
   m_elType (vcs_reinsert_deleted k t) = m_elType t \<and>
   ElActive (vcs_reinsert_deleted k t) = ElActive t \<and>
   ElName (vcs_reinsert_deleted k t) = ElName t \<and>
   FormulaMatrix (vcs_reinsert_deleted k t)
     = (\<lambda>i c. FormulaMatrix t i (swap_idx (m_numSpeciesRdc t) k c))"
  by (auto simp add: vcs_reinsert_deleted_def Let_def vcsUtil_dsw_def swap_idx_def fun_eq_iff)

lemma vcs_elcorr_reinsert_frame:
  assumes r: "vcs_elcorr cutoff mlequ vcs_reinsert_deleted s aa x = Inr (r, s')"
  shows "gai s' = gai s \<and> m_elType s' = m_elType s \<and> ElActive s' = ElActive s \<and>
         ElName s' = ElName s \<and>
         (FormulaMatrix s' = FormulaMatrix s \<or>
          (\<exists>k \<ge> m_numSpeciesRdc s.
             FormulaMatrix s' = (\<lambda>i c. FormulaMatrix s i (swap_idx (m_numSpeciesRdc s) k c))))"
proof -
  from vcs_elcorr_facts [OF r]
  have "same_problem s s' \<or>
        (\<exists>k t. same_problem s t \<and> m_numSpeciesRdc t \<le> k \<and>
               same_problem (vcs_reinsert_deleted k t) s')"
    by (rule conjunct1)
  then show ?thesis
  proof
    assume "same_problem s s'"
    then show ?thesis by (simp add: same_problem_def)
  next
    assume "\<exists>k t. same_problem s t \<and> m_numSpeciesRdc t \<le> k \<and>
               same_problem (vcs_reinsert_deleted k t) s'"
    then obtain k t where st: "same_problem s t" and k: "m_numSpeciesRdc t \<le> k"
      and ts: "same_problem (vcs_reinsert_deleted k t) s'" by blast
    note f = vcs_reinsert_deleted_frame [of k t]
    from st have t: "gai t = gai s" "m_elType t = m_elType s" "ElActive t = ElActive s"
      "ElName t = ElName s" "FormulaMatrix t = FormulaMatrix s"
      "m_numSpeciesRdc t = m_numSpeciesRdc s"
      by (simp_all add: same_problem_def)
    from ts have u: "gai s' = gai (vcs_reinsert_deleted k t)"
      "m_elType s' = m_elType (vcs_reinsert_deleted k t)"
      "ElActive s' = ElActive (vcs_reinsert_deleted k t)"
      "ElName s' = ElName (vcs_reinsert_deleted k t)"
      "FormulaMatrix s' = FormulaMatrix (vcs_reinsert_deleted k t)"
      by (simp_all add: same_problem_def)
    have "FormulaMatrix s' = (\<lambda>i c. FormulaMatrix s i (swap_idx (m_numSpeciesRdc s) k c))"
      using f t u by simp
    with k t(6) have "\<exists>k \<ge> m_numSpeciesRdc s.
        FormulaMatrix s' = (\<lambda>i c. FormulaMatrix s i (swap_idx (m_numSpeciesRdc s) k c))"
      by auto
    with f t u show ?thesis by simp
  qed
qed

lemma ex_reinsert_run:
  "map_sum id (\<lambda>(r, s'). (r, m_numSpeciesRdc s', soln s' 0, soln s' 1, soln s' 2, soln s' 3,
        FormulaMatrix s' 0 2, FormulaMatrix s' 0 3, FormulaMatrix s' 1 2, FormulaMatrix s' 1 3))
     (vcs_elcorr (1 / 10 ^ 140) ex_mlequ vcs_reinsert_deleted ex_reinsert aa x)
     = Inr (Retn 2, 3, 1 / 10 ^ 10, 5 + 1 / 10 ^ 10, 0, 0, 0, 1, 1, 0)"
  by (simp add: elcorr_defs elcorr_average_def vcs_reinsert_deleted_def vcsUtil_dsw_def
      vcsUtil_isw_def ex_mlequ_def ex_reinsert_def vcs_blank_def Let_def
      upt_0_1 upt_0_2 upt_1_2 upt_0_4 upt_1_4 sum_upto_1 sum_upto_2 sum_upto_4)

section \<open>The rearranger: what it returns\<close>

lemma swap_idx_involution: "swap_idx i j (swap_idx i j n) = n"
  by (simp add: swap_idx_def)

lemma bij_swap_idx: "bij (swap_idx i j)"
  by (rule o_bij [of "swap_idx i j"]) (simp_all add: fun_eq_iff swap_idx_involution)

lemma vcsUtil_dsw_swap: "vcsUtil_dsw x i j = x \<circ> swap_idx i j"
  by (auto simp add: vcsUtil_dsw_def Let_def swap_idx_def fun_eq_iff)

lemma vcsUtil_isw_swap: "vcsUtil_isw x i j = x \<circ> swap_idx i j"
  by (auto simp add: vcsUtil_isw_def Let_def swap_idx_def fun_eq_iff)

lemma vcsUtil_stsw_swap: "vcsUtil_stsw x i j = x \<circ> swap_idx i j"
  by (auto simp add: vcsUtil_stsw_def Let_def swap_idx_def fun_eq_iff)

lemma reordered_id: "reordered s id s"
  by (simp add: reordered_def fun_eq_iff)

lemma reordered_switch:
  assumes "i \<noteq> j"
  shows "reordered s (swap_idx i j) (vcs_switch_elem_pos i j s)"
  using assms
  by (simp add: vcs_switch_elem_pos_eq reordered_def vcsUtil_dsw_swap vcsUtil_isw_swap
      vcsUtil_stsw_swap) (auto simp add: fun_eq_iff swap_idx_def)

lemma reordered_trans:
  assumes "reordered a p b" and "reordered b q c"
  shows "reordered a (p \<circ> q) c"
  using assms by (auto simp add: reordered_def fun_eq_iff)


lemma gs_norm_fold_other: "i \<noteq> jr \<Longrightarrow> fold (gs_norm nc jr sm) xs sa i = sa i"
  by (induction xs arbitrary: sa) (simp_all add: gs_norm_def)

lemma gs_candidate_sa_other:
  "i \<noteq> jr \<Longrightarrow> fst (gs_candidate s nc k jr w) i = fst w i"
  by (cases w) (simp add: gs_candidate_def Let_def gs_norm_fold_other)

lemma gs_candidate_nc0: "fst (gs_candidate s 0 k jr w) jr = 0"
  by (cases w) (simp add: gs_candidate_def Let_def)

lemma rearrange_pick_facts:
  "rearrange_pick s nc test jr aw w = Some (k, aw', sa', sm', ss') \<Longrightarrow>
     jr \<le> k \<and> k < m_numElemConstraints s \<and> ElActive s k \<noteq> 0 \<and>
     1 / 10 ^ 6 \<le> sa' jr \<and> (\<forall>i. i \<noteq> jr \<longrightarrow> sa' i = fst w i)"
proof (induction s nc test jr aw w rule: rearrange_pick.induct)
  case (1 s nc test jr aw w)
  let ?k = "rearrange_find s aw test jr"
  from "1.prems" have ne: "?k \<noteq> m_numElemConstraints s"
    by (auto simp add: rearrange_pick.simps [of s nc test jr aw w] Let_def split: if_splits)
  obtain sa1 sm1 ss1 where g: "gs_candidate s nc ?k jr w = (sa1, sm1, ss1)"
    by (cases "gs_candidate s nc ?k jr w") auto
  have other: "\<forall>i. i \<noteq> jr \<longrightarrow> sa1 i = fst w i"
    using gs_candidate_sa_other [of _ jr s nc ?k w] g by simp
  show ?case
  proof (cases "sa1 jr < 1 / 10 ^ 6")
    case True
    with "1.prems" ne g
    have r: "rearrange_pick s nc test jr (aw(?k := test)) (sa1, sm1, ss1)
               = Some (k, aw', sa', sm', ss')"
      by (simp add: rearrange_pick.simps [of s nc test jr aw w] Let_def)
    from "1.IH" [OF refl ne refl g [symmetric] refl True r] other
    show ?thesis by simp
  next
    case False
    with "1.prems" ne g have "k = ?k" "sa' = sa1"
      by (simp_all add: rearrange_pick.simps [of s nc test jr aw w] Let_def)
    with rearrange_find_found [OF ne] False other show ?thesis by simp
  qed
qed

lemma rearrange_pick_nc0: "rearrange_pick s 0 test jr aw w = None"
proof (induction s "0::nat" test jr aw w rule: rearrange_pick.induct)
  case (1 s test jr aw w)
  let ?k = "rearrange_find s aw test jr"
  show ?case
  proof (cases "?k = m_numElemConstraints s")
    case True
    then show ?thesis by (simp add: rearrange_pick.simps [of s 0 test jr aw w] Let_def)
  next
    case False
    obtain sa1 sm1 ss1 where g: "gs_candidate s 0 ?k jr w = (sa1, sm1, ss1)"
      by (cases "gs_candidate s 0 ?k jr w") auto
    with gs_candidate_nc0 [of s ?k jr w] have z: "sa1 jr = 0" by simp
    then have lt: "sa1 jr < 1 / 10 ^ 6" by simp
    from "1.hyps" [OF refl False refl g [symmetric] refl lt]
    show ?thesis using False g lt
      by (simp add: rearrange_pick.simps [of s 0 test jr aw w] Let_def)
  qed
qed

lemma rearrange_loop_facts:
  "rearrange_loop s nc test jr aw w = Some (s', aw', sa', sm', ss') \<Longrightarrow>
     0 < nc \<and>
     (\<exists>p. bij p \<and> (\<forall>i. i < jr \<or> m_numElemConstraints s \<le> i \<longrightarrow> p i = i) \<and>
          reordered s p s') \<and>
     (\<forall>j. jr \<le> j \<and> (j < nc \<or> j = jr) \<longrightarrow>
          j < m_numElemConstraints s \<and> ElActive s' j \<noteq> 0 \<and> 1 / 10 ^ 6 \<le> sa' j) \<and>
     (\<forall>j<jr. sa' j = fst w j)"
proof (induction s nc test jr aw w rule: rearrange_loop.induct)
  case (1 s nc test jr aw w)
  from "1.prems" obtain k aw1 sa1 sm1 ss1 where
    pk: "rearrange_pick s nc test jr aw w = Some (k, aw1, sa1, sm1, ss1)"
    by (cases "rearrange_pick s nc test jr aw w")
       (auto simp add: rearrange_loop.simps [of s nc test jr aw w])
  have nc: "0 < nc"
  proof (rule ccontr)
    assume "\<not> 0 < nc"
    then have "nc = 0" by simp
    with pk rearrange_pick_nc0 [of s test jr aw w] show False by simp
  qed
  from rearrange_pick_facts [OF pk]
  have k: "jr \<le> k" "k < m_numElemConstraints s" "ElActive s k \<noteq> 0"
    and sa1: "1 / 10 ^ 6 \<le> sa1 jr" "\<forall>i. i \<noteq> jr \<longrightarrow> sa1 i = fst w i"
    by simp_all
  define s1 where "s1 = (if jr \<noteq> k then vcs_switch_elem_pos jr k s else s)"
  define aw2 where "aw2 = (if jr \<noteq> k then vcsUtil_dsw aw1 jr k else aw1)"
  define q where "q = (if jr \<noteq> k then swap_idx jr k else id)"
  have q: "bij q" "reordered s q s1" "q jr = k"
    "\<forall>i. i < jr \<or> m_numElemConstraints s \<le> i \<longrightarrow> q i = i"
    using k
    by (auto simp add: q_def s1_def bij_swap_idx reordered_switch reordered_id swap_idx_def)
  from q(2) have E1: "m_numElemConstraints s1 = m_numElemConstraints s"
    and A1: "ElActive s1 = ElActive s \<circ> q"
    by (simp_all add: reordered_def)
  show ?case
  proof (cases "int jr < int nc - 1")
    case True
    with "1.prems" pk
    have rec: "rearrange_loop s1 nc test (jr + 1) aw2 (sa1, sm1, ss1)
                 = Some (s', aw', sa', sm', ss')"
      by (simp add: rearrange_loop.simps [of s nc test jr aw w] Let_def s1_def aw2_def)
    from "1.IH" [OF pk refl refl refl refl s1_def aw2_def True rec]
    obtain p where p: "bij p"
        "\<forall>i. i < jr + 1 \<or> m_numElemConstraints s1 \<le> i \<longrightarrow> p i = i"
        "reordered s1 p s'"
      and rest: "\<forall>j. jr + 1 \<le> j \<and> (j < nc \<or> j = jr + 1) \<longrightarrow>
          j < m_numElemConstraints s1 \<and> ElActive s' j \<noteq> 0 \<and> 1 / 10 ^ 6 \<le> sa' j"
      and old: "\<forall>j<jr + 1. sa' j = fst (sa1, sm1, ss1) j"
      by blast
    have bij: "bij (q \<circ> p)" using q(1) p(1) by (rule bij_comp [rotated])
    have fx: "\<forall>i. i < jr \<or> m_numElemConstraints s \<le> i \<longrightarrow> (q \<circ> p) i = i"
      using q(4) p(2) E1 by auto
    have re: "reordered s (q \<circ> p) s'" using q(2) p(3) by (rule reordered_trans)
    from p(3) have "ElActive s' = ElActive s1 \<circ> p" by (simp add: reordered_def)
    with A1 p(2) q(3) k(3) have act: "ElActive s' jr \<noteq> 0" by simp
    from old sa1 have sajr: "1 / 10 ^ 6 \<le> sa' jr" and olds: "\<forall>j<jr. sa' j = fst w j"
      by simp_all
    have all: "\<forall>j. jr \<le> j \<and> (j < nc \<or> j = jr) \<longrightarrow>
          j < m_numElemConstraints s \<and> ElActive s' j \<noteq> 0 \<and> 1 / 10 ^ 6 \<le> sa' j"
    proof (intro allI impI)
      fix j assume j: "jr \<le> j \<and> (j < nc \<or> j = jr)"
      show "j < m_numElemConstraints s \<and> ElActive s' j \<noteq> 0 \<and> 1 / 10 ^ 6 \<le> sa' j"
      proof (cases "j = jr")
        case True
        with act sajr k show ?thesis by simp
      next
        case False
        with j True have "jr + 1 \<le> j \<and> (j < nc \<or> j = jr + 1)" by auto
        with rest E1 show ?thesis by simp
      qed
    qed
    show ?thesis
      by (intro conjI exI [of _ "q \<circ> p"]) (fact nc bij fx re all olds)+
  next
    case False
    with "1.prems" pk have fin: "s' = s1" "sa' = sa1"
      by (simp_all add: rearrange_loop.simps [of s nc test jr aw w] Let_def s1_def)
    from A1 q(3) k(3) have act: "ElActive s1 jr \<noteq> 0" by simp
    have all: "\<forall>j. jr \<le> j \<and> (j < nc \<or> j = jr) \<longrightarrow>
          j < m_numElemConstraints s \<and> ElActive s' j \<noteq> 0 \<and> 1 / 10 ^ 6 \<le> sa' j"
    proof (intro allI impI)
      fix j assume j: "jr \<le> j \<and> (j < nc \<or> j = jr)"
      from False have "nc \<le> jr + 1" by linarith
      with j have "j = jr" by auto
      moreover from k have "jr < m_numElemConstraints s" by simp
      ultimately show "j < m_numElemConstraints s \<and> ElActive s' j \<noteq> 0 \<and> 1 / 10 ^ 6 \<le> sa' j"
        using act sa1(1) fin by simp
    qed
    from sa1(2) fin have olds: "\<forall>j<jr. sa' j = fst w j" by simp
    have re: "reordered s q s'" using q(2) fin by simp
    show ?thesis
      by (intro conjI exI [of _ q]) (fact nc q(1) q(4) re all olds)+
  qed
qed

lemma reordered_bij_below:
  assumes "bij p" and "\<forall>i. m_numElemConstraints s \<le> i \<longrightarrow> p i = i"
    and "j < m_numElemConstraints s"
  shows "p j < m_numElemConstraints s"
proof (rule ccontr)
  assume "\<not> p j < m_numElemConstraints s"
  then have "m_numElemConstraints s \<le> p j" by simp
  with assms(2) have "p (p j) = p j" by simp
  with assms(1) have "p j = j" by (simp add: bij_def inj_def)
  with \<open>m_numElemConstraints s \<le> p j\<close> assms(3) show False by simp
qed

lemma vcs_elem_rearrange_loop:
  assumes "vcs_elem_rearrange s aw sa sm ss = Inr (st, s', aw', sa', sm', ss')"
  shows "st = VCS_SUCCESS \<and>
         (\<exists>test aw0. rearrange_loop s (m_numComponents s) test 0 aw0 (sa, sm, ss)
              = Some (s', aw', sa', sm', ss'))"
proof -
  obtain test aw0 where sen: "rearrange_sentinel s (- (10 ^ 10)) aw = (test, aw0)"
    by (cases "rearrange_sentinel s (- (10 ^ 10)) aw") auto
  show ?thesis
  proof (cases "rearrange_loop s (m_numComponents s) test 0 aw0 (sa, sm, ss)")
    case None
    with assms sen show ?thesis by (simp add: vcs_elem_rearrange_def)
  next
    case (Some r)
    with assms sen have "st = VCS_SUCCESS" "r = (s', aw', sa', sm', ss')"
      by (simp_all add: vcs_elem_rearrange_def)
    with Some show ?thesis by blast
  qed
qed

lemma vcs_elem_rearrange_facts:
  assumes "vcs_elem_rearrange s aw sa sm ss = Inr (st, s', aw', sa', sm', ss')"
  shows "st = VCS_SUCCESS \<and> 0 < m_numComponents s \<and>
         m_numComponents s \<le> m_numElemConstraints s \<and>
         (\<exists>p. bij p \<and> (\<forall>i. m_numElemConstraints s \<le> i \<longrightarrow> p i = i) \<and> reordered s p s') \<and>
         (\<forall>j < m_numComponents s. ElActive s' j \<noteq> 0 \<and> 1 / 10 ^ 6 \<le> sa' j)"
proof -
  from vcs_elem_rearrange_loop [OF assms] obtain test aw0 where st: "st = VCS_SUCCESS"
    and lp: "rearrange_loop s (m_numComponents s) test 0 aw0 (sa, sm, ss)
              = Some (s', aw', sa', sm', ss')"
    by blast
  note f = rearrange_loop_facts [OF lp]
  from f have nc: "0 < m_numComponents s" by (rule conjunct1)
  from f have "\<exists>p. bij p \<and> (\<forall>i. i < 0 \<or> m_numElemConstraints s \<le> i \<longrightarrow> p i = i) \<and>
                reordered s p s'"
    by (rule conjunct2 [THEN conjunct1])
  then obtain p where p: "bij p" "reordered s p s'"
    and pf: "\<forall>i. i < 0 \<or> m_numElemConstraints s \<le> i \<longrightarrow> p i = i"
    by (elim exE conjE)
  from pf have pf': "\<forall>i. m_numElemConstraints s \<le> i \<longrightarrow> p i = i" by simp
  from f have all: "\<forall>j. 0 \<le> j \<and> (j < m_numComponents s \<or> j = 0) \<longrightarrow>
          j < m_numElemConstraints s \<and> ElActive s' j \<noteq> 0 \<and> 1 / 10 ^ 6 \<le> sa' j"
    by (rule conjunct2 [THEN conjunct2, THEN conjunct1])
  have each: "j < m_numElemConstraints s \<and> ElActive s' j \<noteq> 0 \<and> 1 / 10 ^ 6 \<le> sa' j"
    if "j < m_numComponents s" for j
    using all [rule_format, of j] that by simp
  from nc have "m_numComponents s - 1 < m_numComponents s" by simp
  from each [OF this] have "m_numComponents s - 1 < m_numElemConstraints s" by (rule conjunct1)
  with nc have le: "m_numComponents s \<le> m_numElemConstraints s" by linarith
  have p': "\<exists>p. bij p \<and> (\<forall>i. m_numElemConstraints s \<le> i \<longrightarrow> p i = i) \<and> reordered s p s'"
    by (intro exI [of _ p] conjI) (fact p pf')+
  have all': "\<forall>j < m_numComponents s. ElActive s' j \<noteq> 0 \<and> 1 / 10 ^ 6 \<le> sa' j"
    using each by simp
  show ?thesis
    by (intro conjI) (fact st nc le p' all')+
qed

lemma vcs_elem_rearrange_cases:
  "vcs_elem_rearrange s aw sa sm ss = Inl VCS_EXIT \<or>
   (\<exists>s' aw' sa' sm' ss'.
      vcs_elem_rearrange s aw sa sm ss = Inr (VCS_SUCCESS, s', aw', sa', sm', ss'))"
proof -
  obtain test aw0 where sen: "rearrange_sentinel s (- (10 ^ 10)) aw = (test, aw0)"
    by (cases "rearrange_sentinel s (- (10 ^ 10)) aw") auto
  show ?thesis
  proof (cases "rearrange_loop s (m_numComponents s) test 0 aw0 (sa, sm, ss)")
    case None
    with sen show ?thesis by (simp add: vcs_elem_rearrange_def)
  next
    case (Some r)
    obtain s' aw' sa' sm' ss' where "r = (s', aw', sa', sm', ss')" by (cases r) auto
    with Some sen have "vcs_elem_rearrange s aw sa sm ss = Inr (VCS_SUCCESS, s', aw', sa', sm', ss')"
      by (simp add: vcs_elem_rearrange_def)
    then show ?thesis by blast
  qed
qed

lemma vcs_elem_rearrange_needs_active:
  assumes "vcs_elem_rearrange s aw sa sm ss = Inr (st, s', aw', sa', sm', ss')"
  shows "m_numComponents s \<le> card {i. i < m_numElemConstraints s \<and> ElActive s i \<noteq> 0}"
proof -
  from vcs_elem_rearrange_facts [OF assms] obtain p where
    le: "m_numComponents s \<le> m_numElemConstraints s"
    and p: "bij p" "\<forall>i. m_numElemConstraints s \<le> i \<longrightarrow> p i = i" "reordered s p s'"
    and act: "\<forall>j < m_numComponents s. ElActive s' j \<noteq> 0"
    by auto
  from p(3) have A: "ElActive s' = ElActive s \<circ> p" by (simp add: reordered_def)
  have sub: "p ` {..<m_numComponents s} \<subseteq> {i. i < m_numElemConstraints s \<and> ElActive s i \<noteq> 0}"
  proof
    fix i assume "i \<in> p ` {..<m_numComponents s}"
    then obtain j where j: "j < m_numComponents s" "i = p j" by auto
    with le have "j < m_numElemConstraints s" by simp
    from reordered_bij_below [OF p(1) p(2) this] have "p j < m_numElemConstraints s" .
    moreover from act j(1) A have "ElActive s (p j) \<noteq> 0" by simp
    ultimately show "i \<in> {i. i < m_numElemConstraints s \<and> ElActive s i \<noteq> 0}"
      using j(2) by simp
  qed
  from p(1) have "inj_on p {..<m_numComponents s}" by (simp add: bij_def inj_on_def inj_def)
  then have "card (p ` {..<m_numComponents s}) = m_numComponents s" by (simp add: card_image)
  moreover have "card (p ` {..<m_numComponents s})
      \<le> card {i. i < m_numElemConstraints s \<and> ElActive s i \<noteq> 0}"
    by (rule card_mono [OF _ sub]) simp
  ultimately show ?thesis by simp
qed

lemma orthogonal_residuals_independent:
  fixes R Q :: "nat \<Rightarrow> nat \<Rightarrow> real"
  assumes res: "\<forall>j<n. \<forall>l<nc. Q j l = R j l - (\<Sum>i<j. c j i * Q i l)"
    and orth: "\<forall>j<n. \<forall>i<j. (\<Sum>l<nc. Q i l * Q j l) = 0"
    and pos: "\<forall>j<n. (\<Sum>l<nc. Q j l * Q j l) \<noteq> 0"
    and zero: "\<forall>l<nc. (\<Sum>j<n. a j * R j l) = 0"
  shows "\<forall>j<n. a j = 0"
  using assms
proof (induction n)
  case 0
  show ?case by simp
next
  case (Suc n)
  note res = Suc.prems(1) and orth = Suc.prems(2) and pos = Suc.prems(3) and zero = Suc.prems(4)
  define D where "D j = (\<Sum>l<nc. R j l * Q n l)" for j
  have RQ: "D j = (\<Sum>l<nc. Q j l * Q n l) + (\<Sum>i<j. c j i * (\<Sum>l<nc. Q i l * Q n l))"
    if j: "j < Suc n" for j
  proof -
    have "D j = (\<Sum>l<nc. (Q j l + (\<Sum>i<j. c j i * Q i l)) * Q n l)"
      unfolding D_def
    proof (rule sum.cong)
      fix l assume "l \<in> {..<nc}"
      then have "l < nc" by simp
      with res j have "Q j l = R j l - (\<Sum>i<j. c j i * Q i l)" by blast
      then show "R j l * Q n l = (Q j l + (\<Sum>i<j. c j i * Q i l)) * Q n l" by simp
    qed simp
    also have "\<dots> = (\<Sum>l<nc. Q j l * Q n l) + (\<Sum>l<nc. \<Sum>i<j. c j i * (Q i l * Q n l))"
      by (simp add: distrib_right sum.distrib sum_distrib_right mult.assoc)
    also have "(\<Sum>l<nc. \<Sum>i<j. c j i * (Q i l * Q n l)) = (\<Sum>i<j. \<Sum>l<nc. c j i * (Q i l * Q n l))"
      by (rule sum.swap)
    also have "\<dots> = (\<Sum>i<j. c j i * (\<Sum>l<nc. Q i l * Q n l))"
      by (simp add: sum_distrib_left)
    finally show ?thesis .
  qed
  have on: "(\<Sum>l<nc. Q i l * Q n l) = 0" if "i < n" for i
    using orth that by simp
  have Dlt: "D j = 0" if "j < n" for j
  proof -
    have "(\<Sum>i<j. c j i * (\<Sum>l<nc. Q i l * Q n l)) = 0"
      using that by (intro sum.neutral) (simp add: on)
    with RQ [of j] on [OF that] that show ?thesis by simp
  qed
  have Dn: "D n = (\<Sum>l<nc. Q n l * Q n l)"
  proof -
    have "(\<Sum>i<n. c n i * (\<Sum>l<nc. Q i l * Q n l)) = 0"
      by (intro sum.neutral) (simp add: on)
    with RQ [of n] show ?thesis by simp
  qed
  have "(\<Sum>l<nc. (\<Sum>j<Suc n. a j * R j l) * Q n l) = 0"
    using zero by (intro sum.neutral) simp
  moreover have "(\<Sum>l<nc. (\<Sum>j<Suc n. a j * R j l) * Q n l)
      = (\<Sum>l<nc. \<Sum>j<Suc n. a j * (R j l * Q n l))"
    by (simp only: sum_distrib_right mult.assoc)
  moreover have "(\<Sum>l<nc. \<Sum>j<Suc n. a j * (R j l * Q n l))
      = (\<Sum>j<Suc n. \<Sum>l<nc. a j * (R j l * Q n l))"
    by (rule sum.swap)
  moreover have "(\<Sum>j<Suc n. \<Sum>l<nc. a j * (R j l * Q n l)) = (\<Sum>j<Suc n. a j * D j)"
    by (simp only: sum_distrib_left D_def)
  moreover have "(\<Sum>j<Suc n. a j * D j) = a n * D n"
  proof -
    have "(\<Sum>j<n. a j * D j) = 0" by (intro sum.neutral) (simp add: Dlt)
    then show ?thesis by simp
  qed
  ultimately have "a n * D n = 0" by simp
  moreover from pos Dn have "D n \<noteq> 0" by simp
  ultimately have an: "a n = 0" by simp
  have zero': "\<forall>l<nc. (\<Sum>j<n. a j * R j l) = 0"
    using zero an by simp
  have "\<forall>j<n. a j = 0"
    by (rule Suc.IH) (use res orth pos zero' in auto)
  with an show ?case by (simp add: less_Suc_eq)
qed

lemma gs_ok_independent:
  assumes "gs_ok s nc n sa sm"
    and "\<forall>l<nc. (\<Sum>j<n. a j * FormulaMatrix s j l) = 0"
  shows "\<forall>j<n. a j = 0"
proof -
  from assms(1) obtain c where c: "\<forall>j<n.
        sa j = (\<Sum>l<nc. sm (l + j * nc) * sm (l + j * nc)) \<and> 0 < sa j \<and>
        (\<forall>i<j. (\<Sum>l<nc. sm (l + i * nc) * sm (l + j * nc)) = 0) \<and>
        (\<forall>l<nc. sm (l + j * nc) = FormulaMatrix s j l - (\<Sum>i<j. c j i * sm (l + i * nc)))"
    unfolding gs_ok_def by blast
  show ?thesis
  proof (rule orthogonal_residuals_independent
      [where Q = "\<lambda>j l. sm (l + j * nc)" and R = "FormulaMatrix s" and c = c and nc = nc])
    show "\<forall>j<n. \<forall>l<nc. sm (l + j * nc) = FormulaMatrix s j l - (\<Sum>i<j. c j i * sm (l + i * nc))"
      using c by blast
    show "\<forall>j<n. \<forall>i<j. (\<Sum>l<nc. sm (l + i * nc) * sm (l + j * nc)) = 0"
      using c by blast
    show "\<forall>j<n. (\<Sum>l<nc. sm (l + j * nc) * sm (l + j * nc)) \<noteq> 0"
    proof (intro allI impI)
      fix j assume "j < n"
      with c have "sa j = (\<Sum>l<nc. sm (l + j * nc) * sm (l + j * nc))" "0 < sa j" by blast+
      then show "(\<Sum>l<nc. sm (l + j * nc) * sm (l + j * nc)) \<noteq> 0" by simp
    qed
    show "\<forall>l<nc. (\<Sum>j<n. a j * FormulaMatrix s j l) = 0" by (rule assms(2))
  qed
qed

lemma gs_fill_fold:
  "fold (gs_fill s nc k jr) [0..<n] sm =
     (\<lambda>x. if jr * nc \<le> x \<and> x < jr * nc + n then FormulaMatrix s k (x - jr * nc) else sm x)"
proof (induction n)
  case 0
  show ?case by (simp add: fun_eq_iff)
next
  case (Suc n)
  show ?case
    apply (subst fold_upt_Suc)
    apply (subst Suc.IH)
    apply (auto simp add: gs_fill_def fun_eq_iff)
    done
qed

lemma gs_dot_fold:
  "fold (gs_dot nc jr sm j) [0..<n] ss =
     ss(j := ss j + (\<Sum>i<n. sm (i + jr * nc) * sm (i + j * nc)))"
proof (induction n)
  case 0
  show ?case by simp
next
  case (Suc n)
  show ?case
    apply (subst fold_upt_Suc)
    apply (subst Suc.IH)
    apply (simp add: gs_dot_def fun_eq_iff)
    done
qed

lemma gs_coeff_eq:
  "gs_coeff nc jr sa sm j ss =
     ss(j := (\<Sum>i<nc. sm (i + jr * nc) * sm (i + j * nc)) / sa j)"
  by (simp add: gs_coeff_def gs_dot_fold Let_def)

lemma gs_coeff_fold:
  "fold (gs_coeff nc jr sa sm) [0..<n] ss =
     (\<lambda>j. if j < n then (\<Sum>i<nc. sm (i + jr * nc) * sm (i + j * nc)) / sa j else ss j)"
proof (induction n)
  case 0
  show ?case by simp
next
  case (Suc n)
  show ?case
    apply (subst fold_upt_Suc)
    apply (subst Suc.IH)
    apply (simp add: gs_coeff_eq fun_eq_iff less_Suc_eq)
    done
qed

lemma row_below:
  assumes "j < jr" and "l < (nc::nat)"
  shows "l + j * nc < jr * nc"
proof -
  from assms(1) have "Suc j \<le> jr" by simp
  then have "Suc j * nc \<le> jr * nc" by (rule mult_le_mono1)
  with assms(2) show ?thesis by simp
qed

lemma gs_sub_fold:
  assumes "j < jr" and "n \<le> nc"
  shows "fold (gs_sub nc jr ss j) [0..<n] sm =
     (\<lambda>x. if jr * nc \<le> x \<and> x < jr * nc + n
          then sm x - ss j * sm (x - jr * nc + j * nc) else sm x)"
  using assms(2)
proof (induction n)
  case 0
  show ?case by (simp add: fun_eq_iff)
next
  case (Suc n)
  then have n: "n < nc" by simp
  from row_below [OF assms(1) n] have b: "n + j * nc < jr * nc" .
  from Suc have IH: "fold (gs_sub nc jr ss j) [0..<n] sm =
     (\<lambda>x. if jr * nc \<le> x \<and> x < jr * nc + n
          then sm x - ss j * sm (x - jr * nc + j * nc) else sm x)" by simp
  show ?case
    apply (subst fold_upt_Suc)
    apply (subst IH)
    using b
    apply (auto simp add: gs_sub_def fun_eq_iff add.commute)
    done
qed

lemma gs_orth_fold:
  assumes "m \<le> jr"
  shows "fold (gs_orth nc jr ss) [0..<m] sm =
     (\<lambda>x. if jr * nc \<le> x \<and> x < jr * nc + nc
          then sm x - (\<Sum>j<m. ss j * sm (x - jr * nc + j * nc)) else sm x)"
  using assms
proof (induction m)
  case 0
  show ?case by (simp add: fun_eq_iff)
next
  case (Suc m)
  then have m: "m < jr" by simp
  define g where "g = fold (gs_orth nc jr ss) [0..<m] sm"
  from Suc have IH: "g =
     (\<lambda>x. if jr * nc \<le> x \<and> x < jr * nc + nc
          then sm x - (\<Sum>j<m. ss j * sm (x - jr * nc + j * nc)) else sm x)"
    by (simp add: g_def)
  have step: "fold (gs_orth nc jr ss) [0..<Suc m] sm =
     (\<lambda>x. if jr * nc \<le> x \<and> x < jr * nc + nc
          then g x - ss m * g (x - jr * nc + m * nc) else g x)"
    unfolding g_def by (simp add: gs_orth_def gs_sub_fold [OF m order_refl])
  show ?case
    unfolding step
  proof (rule ext)
    fix x
    show "(if jr * nc \<le> x \<and> x < jr * nc + nc
           then g x - ss m * g (x - jr * nc + m * nc) else g x) =
          (if jr * nc \<le> x \<and> x < jr * nc + nc
           then sm x - (\<Sum>j<Suc m. ss j * sm (x - jr * nc + j * nc)) else sm x)"
    proof (cases "jr * nc \<le> x \<and> x < jr * nc + nc")
      case False
      have "g x = sm x" by (simp only: IH if_not_P [OF False])
      then show ?thesis by (simp only: if_not_P [OF False])
    next
      case True
      then have "x - jr * nc < nc" by auto
      from row_below [OF m this]
      have "\<not> (jr * nc \<le> x - jr * nc + m * nc \<and> x - jr * nc + m * nc < jr * nc + nc)"
        by simp
      then have g1: "g (x - jr * nc + m * nc) = sm (x - jr * nc + m * nc)"
        by (simp only: IH if_not_P if_False)
      have g2: "g x = sm x - (\<Sum>j<m. ss j * sm (x - jr * nc + j * nc))"
        by (simp only: IH if_P [OF True])
      show ?thesis
        by (simp only: if_P [OF True] g1 g2 sum.lessThan_Suc)
    qed
  qed
qed

lemma gs_norm_fold:
  "fold (gs_norm nc jr sm) [0..<n] sa =
     sa(jr := sa jr + (\<Sum>ml<n. sm (ml + jr * nc) * sm (ml + jr * nc)))"
proof (induction n)
  case 0
  show ?case by simp
next
  case (Suc n)
  show ?case
    apply (subst fold_upt_Suc)
    apply (subst Suc.IH)
    apply (simp add: gs_norm_def fun_eq_iff power2_eq_square)
    done
qed

lemma gs_candidate_rows:
  assumes g: "gs_candidate s nc k jr (sa, sm, ss) = (sa1, sm1, ss1)"
  shows "\<forall>j<jr. \<forall>l<nc. sm1 (l + j * nc) = sm (l + j * nc)"
    and "\<forall>j. j \<noteq> jr \<longrightarrow> sa1 j = sa j"
    and "\<forall>j<jr. ss1 j = (\<Sum>i<nc. FormulaMatrix s k i * sm (i + j * nc)) / sa j"
    and "\<forall>l<nc. sm1 (l + jr * nc) = FormulaMatrix s k l - (\<Sum>j<jr. ss1 j * sm (l + j * nc))"
    and "sa1 jr = (\<Sum>l<nc. sm1 (l + jr * nc) * sm1 (l + jr * nc))"
proof -
  define f where "f = fold (gs_fill s nc k jr) [0..<nc] sm"
  define c where "c = fold (gs_coeff nc jr sa f) [0..<jr] ss"
  define q where "q = fold (gs_orth nc jr c) [0..<jr] f"
  have "gs_candidate s nc k jr (sa, sm, ss)
      = (fold (gs_norm nc jr q) [0..<nc] (sa(jr := 0)), q, c)"
    by (cases "jr = 0") (simp_all add: gs_candidate_def Let_def f_def c_def q_def)
  from trans [OF g [symmetric] this]
  have "(sa1, sm1, ss1) = (fold (gs_norm nc jr q) [0..<nc] (sa(jr := 0)), q, c)" .
  then have sa1: "sa1 = fold (gs_norm nc jr q) [0..<nc] (sa(jr := 0))"
    and sm1: "sm1 = q" and ss1: "ss1 = c" by simp_all
  have f_low: "f (l + j * nc) = sm (l + j * nc)" if "j < jr" "l < nc" for j l
    using row_below [OF that] by (simp add: f_def gs_fill_fold)
  have f_row: "f (l + jr * nc) = FormulaMatrix s k l" if "l < nc" for l
    using that by (simp add: f_def gs_fill_fold)
  have c_val: "c j = (\<Sum>i<nc. FormulaMatrix s k i * sm (i + j * nc)) / sa j" if "j < jr" for j
  proof -
    have "(\<Sum>i<nc. f (i + jr * nc) * f (i + j * nc))
        = (\<Sum>i<nc. FormulaMatrix s k i * sm (i + j * nc))"
      by (rule sum.cong) (simp_all add: f_row f_low that)
    with that show ?thesis by (simp add: c_def gs_coeff_fold)
  qed
  have q_low: "q (l + j * nc) = sm (l + j * nc)" if "j < jr" "l < nc" for j l
    using row_below [OF that] f_low [OF that] by (simp add: q_def gs_orth_fold)
  have q_row: "q (l + jr * nc) = FormulaMatrix s k l - (\<Sum>j<jr. c j * sm (l + j * nc))"
    if "l < nc" for l
  proof -
    have "(\<Sum>j<jr. c j * f (l + j * nc)) = (\<Sum>j<jr. c j * sm (l + j * nc))"
      by (rule sum.cong) (simp_all add: f_low that)
    with that show ?thesis by (simp add: q_def gs_orth_fold f_row)
  qed
  show "\<forall>j<jr. \<forall>l<nc. sm1 (l + j * nc) = sm (l + j * nc)"
    by (simp add: sm1 q_low)
  show "\<forall>j. j \<noteq> jr \<longrightarrow> sa1 j = sa j"
    by (simp add: sa1 gs_norm_fold)
  show "\<forall>j<jr. ss1 j = (\<Sum>i<nc. FormulaMatrix s k i * sm (i + j * nc)) / sa j"
    by (simp add: ss1 c_val)
  show "\<forall>l<nc. sm1 (l + jr * nc) = FormulaMatrix s k l - (\<Sum>j<jr. ss1 j * sm (l + j * nc))"
    by (simp add: sm1 ss1 q_row)
  show "sa1 jr = (\<Sum>l<nc. sm1 (l + jr * nc) * sm1 (l + jr * nc))"
    by (simp add: sa1 sm1 gs_norm_fold)
qed

lemma gs_ok_cong:
  assumes ok: "gs_ok s nc n sa sm"
    and sm: "\<forall>j<n. \<forall>l<nc. sm' (l + j * nc) = sm (l + j * nc)"
    and sa: "\<forall>j<n. sa' j = sa j"
    and fm: "\<forall>j<n. \<forall>l<nc. FormulaMatrix s' j l = FormulaMatrix s j l"
  shows "gs_ok s' nc n sa' sm'"
proof -
  from ok obtain c where c: "\<forall>j<n.
        sa j = (\<Sum>l<nc. sm (l + j * nc) * sm (l + j * nc)) \<and> 0 < sa j \<and>
        (\<forall>i<j. (\<Sum>l<nc. sm (l + i * nc) * sm (l + j * nc)) = 0) \<and>
        (\<forall>l<nc. sm (l + j * nc) = FormulaMatrix s j l - (\<Sum>i<j. c j i * sm (l + i * nc)))"
    unfolding gs_ok_def by blast
  have "\<forall>j<n.
        sa' j = (\<Sum>l<nc. sm' (l + j * nc) * sm' (l + j * nc)) \<and> 0 < sa' j \<and>
        (\<forall>i<j. (\<Sum>l<nc. sm' (l + i * nc) * sm' (l + j * nc)) = 0) \<and>
        (\<forall>l<nc. sm' (l + j * nc) = FormulaMatrix s' j l - (\<Sum>i<j. c j i * sm' (l + i * nc)))"
  proof (intro allI impI conjI)
    fix j assume j: "j < n"
    have "(\<Sum>l<nc. sm' (l + j * nc) * sm' (l + j * nc)) = (\<Sum>l<nc. sm (l + j * nc) * sm (l + j * nc))"
      by (rule sum.cong) (use sm j in simp_all)
    moreover from c j have "sa j = (\<Sum>l<nc. sm (l + j * nc) * sm (l + j * nc))" by blast
    ultimately show "sa' j = (\<Sum>l<nc. sm' (l + j * nc) * sm' (l + j * nc))"
      using sa j by simp
    from c j have "0 < sa j" by blast
    with sa j show "0 < sa' j" by simp
  next
    fix j i assume j: "j < n" and i: "i < j"
    then have i': "i < n" by simp
    have "(\<Sum>l<nc. sm' (l + i * nc) * sm' (l + j * nc)) = (\<Sum>l<nc. sm (l + i * nc) * sm (l + j * nc))"
      by (rule sum.cong) (use sm j i' in simp_all)
    moreover from c j i have "(\<Sum>l<nc. sm (l + i * nc) * sm (l + j * nc)) = 0" by blast
    ultimately show "(\<Sum>l<nc. sm' (l + i * nc) * sm' (l + j * nc)) = 0" by simp
  next
    fix j l assume j: "j < n" and l: "l < nc"
    have "(\<Sum>i<j. c j i * sm' (l + i * nc)) = (\<Sum>i<j. c j i * sm (l + i * nc))"
      by (rule sum.cong) (use sm j l in simp_all)
    moreover from c j l
    have "sm (l + j * nc) = FormulaMatrix s j l - (\<Sum>i<j. c j i * sm (l + i * nc))" by blast
    moreover from sm j l have "sm' (l + j * nc) = sm (l + j * nc)" by blast
    moreover from fm j l have "FormulaMatrix s' j l = FormulaMatrix s j l" by blast
    ultimately
    show "sm' (l + j * nc) = FormulaMatrix s' j l - (\<Sum>i<j. c j i * sm' (l + i * nc))" by simp
  qed
  then show ?thesis unfolding gs_ok_def by blast
qed

lemma gs_candidate_keeps:
  assumes ok: "gs_ok s nc jr sa sm"
    and g: "gs_candidate s nc k jr (sa, sm, ss) = (sa1, sm1, ss1)"
  shows "gs_ok s nc jr sa1 sm1"
  using ok
proof (rule gs_ok_cong)
  from gs_candidate_rows(1) [OF g]
  show "\<forall>j<jr. \<forall>l<nc. sm1 (l + j * nc) = sm (l + j * nc)" .
  from gs_candidate_rows(2) [OF g]
  show "\<forall>j<jr. sa1 j = sa j" by simp
  show "\<forall>j<jr. \<forall>l<nc. FormulaMatrix s j l = FormulaMatrix s j l" by simp
qed

lemma gs_candidate_accept:
  assumes ok: "gs_ok s nc jr sa sm"
    and g: "gs_candidate s nc k jr (sa, sm, ss) = (sa1, sm1, ss1)"
    and pos: "0 < sa1 jr"
    and low: "\<forall>j<jr. \<forall>l<nc. FormulaMatrix s1 j l = FormulaMatrix s j l"
    and row: "\<forall>l<nc. FormulaMatrix s1 jr l = FormulaMatrix s k l"
  shows "gs_ok s1 nc (Suc jr) sa1 sm1"
proof -
  note r = gs_candidate_rows [OF g]
  have ok1: "gs_ok s1 nc jr sa1 sm1"
    using ok
  proof (rule gs_ok_cong)
    from r(1) show "\<forall>j<jr. \<forall>l<nc. sm1 (l + j * nc) = sm (l + j * nc)" .
    from r(2) show "\<forall>j<jr. sa1 j = sa j" by simp
    from low show "\<forall>j<jr. \<forall>l<nc. FormulaMatrix s1 j l = FormulaMatrix s j l" .
  qed
  then obtain c where c: "\<forall>j<jr.
        sa1 j = (\<Sum>l<nc. sm1 (l + j * nc) * sm1 (l + j * nc)) \<and> 0 < sa1 j \<and>
        (\<forall>i<j. (\<Sum>l<nc. sm1 (l + i * nc) * sm1 (l + j * nc)) = 0) \<and>
        (\<forall>l<nc. sm1 (l + j * nc) = FormulaMatrix s1 j l - (\<Sum>i<j. c j i * sm1 (l + i * nc)))"
    unfolding gs_ok_def by blast
  have c_nrm: "sa1 j = (\<Sum>l<nc. sm1 (l + j * nc) * sm1 (l + j * nc))" if "j < jr" for j
    using c that by blast
  have c_pos: "0 < sa1 j" if "j < jr" for j
    using c that by blast
  have c_orth: "(\<Sum>l<nc. sm1 (l + i * nc) * sm1 (l + j * nc)) = 0" if "j < jr" "i < j" for i j
    using c that by blast
  have c_res: "sm1 (l + j * nc) = FormulaMatrix s1 j l - (\<Sum>i<j. c j i * sm1 (l + i * nc))"
    if "j < jr" "l < nc" for j l
    using c that by blast
  define Q where "Q i l = sm1 (l + i * nc)" for i l
  define R where "R l = FormulaMatrix s k l" for l
  have Qsm: "sm (l + i * nc) = Q i l" if "i < jr" "l < nc" for i l
    using r(1) that by (simp add: Q_def)
  have orth: "(\<Sum>l<nc. Q i l * Q j l) = 0" if "i < jr" "j < jr" "i \<noteq> j" for i j
  proof (cases "i < j")
    case True
    from c_orth [OF that(2) True] show ?thesis by (simp add: Q_def)
  next
    case False
    with that have "j < i" by simp
    from c_orth [OF that(1) this] have "(\<Sum>l<nc. Q j l * Q i l) = 0" by (simp add: Q_def)
    then show ?thesis by (simp add: mult.commute)
  qed
  have nrm: "(\<Sum>l<nc. Q i l * Q i l) = sa1 i" "0 < sa1 i" if "i < jr" for i
    using c_nrm [OF that] c_pos [OF that] by (simp_all add: Q_def)
  have coef: "ss1 i = (\<Sum>l<nc. R l * Q i l) / sa1 i" if "i < jr" for i
  proof -
    have "(\<Sum>l<nc. FormulaMatrix s k l * sm (l + i * nc)) = (\<Sum>l<nc. R l * Q i l)"
      by (rule sum.cong) (simp_all add: Qsm that R_def)
    with r(2,3) that show ?thesis by simp
  qed
  have new: "Q jr l = R l - (\<Sum>j<jr. ss1 j * Q j l)" if "l < nc" for l
  proof -
    have "(\<Sum>j<jr. ss1 j * sm (l + j * nc)) = (\<Sum>j<jr. ss1 j * Q j l)"
      by (rule sum.cong) (simp_all add: Qsm that)
    with r(4) that show ?thesis by (simp add: Q_def R_def)
  qed
  have northo: "(\<Sum>l<nc. Q i l * Q jr l) = 0" if i: "i < jr" for i
  proof -
    have "(\<Sum>l<nc. Q i l * Q jr l) = (\<Sum>l<nc. Q i l * (R l - (\<Sum>j<jr. ss1 j * Q j l)))"
      by (rule sum.cong) (simp_all add: new)
    also have "\<dots> = (\<Sum>l<nc. Q i l * R l) - (\<Sum>l<nc. \<Sum>j<jr. ss1 j * (Q i l * Q j l))"
      by (simp add: right_diff_distrib sum_subtractf sum_distrib_left mult.left_commute)
    also have "(\<Sum>l<nc. \<Sum>j<jr. ss1 j * (Q i l * Q j l)) = (\<Sum>j<jr. \<Sum>l<nc. ss1 j * (Q i l * Q j l))"
      by (rule sum.swap)
    also have "\<dots> = (\<Sum>j<jr. ss1 j * (\<Sum>l<nc. Q i l * Q j l))"
      by (simp add: sum_distrib_left)
    also have "\<dots> = (\<Sum>j<jr. if j = i then ss1 i * sa1 i else 0)"
      by (rule sum.cong) (use i in \<open>auto simp add: orth nrm\<close>)
    also have "\<dots> = ss1 i * sa1 i"
      using i by (simp add: sum.delta')
    also have "\<dots> = (\<Sum>l<nc. R l * Q i l)"
      using coef [OF i] nrm(2) [OF i] by simp
    finally show ?thesis by (simp add: mult.commute)
  qed
  define c' where "c' j = (if j = jr then ss1 else c j)" for j
  have "\<forall>j<Suc jr.
        sa1 j = (\<Sum>l<nc. sm1 (l + j * nc) * sm1 (l + j * nc)) \<and> 0 < sa1 j \<and>
        (\<forall>i<j. (\<Sum>l<nc. sm1 (l + i * nc) * sm1 (l + j * nc)) = 0) \<and>
        (\<forall>l<nc. sm1 (l + j * nc) = FormulaMatrix s1 j l - (\<Sum>i<j. c' j i * sm1 (l + i * nc)))"
  proof (intro allI impI)
    fix j assume "j < Suc jr"
    show "sa1 j = (\<Sum>l<nc. sm1 (l + j * nc) * sm1 (l + j * nc)) \<and> 0 < sa1 j \<and>
        (\<forall>i<j. (\<Sum>l<nc. sm1 (l + i * nc) * sm1 (l + j * nc)) = 0) \<and>
        (\<forall>l<nc. sm1 (l + j * nc) = FormulaMatrix s1 j l - (\<Sum>i<j. c' j i * sm1 (l + i * nc)))"
    proof (cases "j = jr")
      case False
      with \<open>j < Suc jr\<close> have j: "j < jr" by simp
      have "\<forall>l<nc. sm1 (l + j * nc)
          = FormulaMatrix s1 j l - (\<Sum>i<j. c' j i * sm1 (l + i * nc))"
        using c_res [OF j] False by (simp add: c'_def)
      moreover have "\<forall>i<j. (\<Sum>l<nc. sm1 (l + i * nc) * sm1 (l + j * nc)) = 0"
        using c_orth [OF j] by blast
      ultimately show ?thesis using c_nrm [OF j] c_pos [OF j] by blast
    next
      case True
      have a: "sa1 jr = (\<Sum>l<nc. sm1 (l + jr * nc) * sm1 (l + jr * nc))" by (rule r(5))
      have b: "\<forall>i<jr. (\<Sum>l<nc. sm1 (l + i * nc) * sm1 (l + jr * nc)) = 0"
        using northo by (simp add: Q_def)
      have d: "\<forall>l<nc. sm1 (l + jr * nc)
          = FormulaMatrix s1 jr l - (\<Sum>i<jr. c' jr i * sm1 (l + i * nc))"
        using new row by (simp add: Q_def R_def c'_def)
      from a pos b d show ?thesis unfolding True by blast
    qed
  qed
  then show ?thesis unfolding gs_ok_def by blast
qed

lemma rearrange_pick_gs:
  "rearrange_pick s nc test jr aw w = Some (k, aw', sa', sm', ss') \<Longrightarrow>
   gs_ok s nc jr (fst w) (fst (snd w)) \<Longrightarrow>
   (\<forall>j<jr. \<forall>l<nc. FormulaMatrix s1 j l = FormulaMatrix s j l) \<Longrightarrow>
   (\<forall>l<nc. FormulaMatrix s1 jr l = FormulaMatrix s k l) \<Longrightarrow>
   gs_ok s1 nc (Suc jr) sa' sm'"
proof (induction s nc test jr aw w rule: rearrange_pick.induct)
  case (1 s nc test jr aw w)
  let ?k = "rearrange_find s aw test jr"
  from "1.prems"(1) have ne: "?k \<noteq> m_numElemConstraints s"
    by (auto simp add: rearrange_pick.simps [of s nc test jr aw w] Let_def split: if_splits)
  obtain sa0 sm0 ss0 where w: "w = (sa0, sm0, ss0)" by (cases w) auto
  obtain sa1 sm1 ss1 where g: "gs_candidate s nc ?k jr w = (sa1, sm1, ss1)"
    by (cases "gs_candidate s nc ?k jr w") auto
  from "1.prems"(2) have ok: "gs_ok s nc jr sa0 sm0" by (simp add: w)
  show ?case
  proof (cases "sa1 jr < 1 / 10 ^ 6")
    case True
    with "1.prems"(1) ne g
    have r: "rearrange_pick s nc test jr (aw(?k := test)) (sa1, sm1, ss1)
               = Some (k, aw', sa', sm', ss')"
      by (simp add: rearrange_pick.simps [of s nc test jr aw w] Let_def)
    have "gs_ok s nc jr (fst (sa1, sm1, ss1)) (fst (snd (sa1, sm1, ss1)))"
      using gs_candidate_keeps [OF ok g [unfolded w]] by simp
    from "1.IH" [OF refl ne refl g [symmetric] refl True r this "1.prems"(3) "1.prems"(4)]
    show ?thesis .
  next
    case False
    with "1.prems"(1) ne g have e: "k = ?k" "sa' = sa1" "sm' = sm1"
      by (simp_all add: rearrange_pick.simps [of s nc test jr aw w] Let_def)
    from False have "1 / 10 ^ 6 \<le> sa1 jr" by simp
    then have pos: "0 < sa1 jr" by (rule less_le_trans [rotated]) simp
    from gs_candidate_accept [OF ok g [unfolded w] pos "1.prems"(3)] "1.prems"(4) e
    show ?thesis by simp
  qed
qed

lemma rearrange_loop_gs:
  "rearrange_loop s nc test jr aw w = Some (s', aw', sa', sm', ss') \<Longrightarrow>
   gs_ok s nc jr (fst w) (fst (snd w)) \<Longrightarrow> nc \<le> m_numSpeciesTot s \<Longrightarrow> jr < nc \<Longrightarrow>
   gs_ok s' nc nc sa' sm'"
proof (induction s nc test jr aw w rule: rearrange_loop.induct)
  case (1 s nc test jr aw w)
  from "1.prems"(1) obtain k aw1 sa1 sm1 ss1 where
    pk: "rearrange_pick s nc test jr aw w = Some (k, aw1, sa1, sm1, ss1)"
    by (cases "rearrange_pick s nc test jr aw w")
       (auto simp add: rearrange_loop.simps [of s nc test jr aw w])
  from rearrange_pick_facts [OF pk] have k: "jr \<le> k" by simp
  define s1 where "s1 = (if jr \<noteq> k then vcs_switch_elem_pos jr k s else s)"
  define aw2 where "aw2 = (if jr \<noteq> k then vcsUtil_dsw aw1 jr k else aw1)"
  define q where "q = (if jr \<noteq> k then swap_idx jr k else id)"
  have q: "reordered s q s1" "q jr = k" "\<forall>i. i < jr \<longrightarrow> q i = i"
    using k by (auto simp add: q_def s1_def reordered_switch reordered_id swap_idx_def)
  from q(1) have S1: "m_numSpeciesTot s1 = m_numSpeciesTot s"
    and F1: "FormulaMatrix s1 =
       (\<lambda>r c. if c < m_numSpeciesTot s then FormulaMatrix s (q r) c else FormulaMatrix s r c)"
    by (simp_all add: reordered_def)
  have low: "\<forall>j<jr. \<forall>l<nc. FormulaMatrix s1 j l = FormulaMatrix s j l"
    using q(3) "1.prems"(3) by (simp add: F1)
  have row: "\<forall>l<nc. FormulaMatrix s1 jr l = FormulaMatrix s k l"
    using q(2) "1.prems"(3) by (simp add: F1)
  from rearrange_pick_gs [OF pk "1.prems"(2) low row]
  have ok1: "gs_ok s1 nc (Suc jr) sa1 sm1" .
  show ?case
  proof (cases "int jr < int nc - 1")
    case True
    with "1.prems"(1) pk
    have rec: "rearrange_loop s1 nc test (jr + 1) aw2 (sa1, sm1, ss1)
                 = Some (s', aw', sa', sm', ss')"
      by (simp add: rearrange_loop.simps [of s nc test jr aw w] Let_def s1_def aw2_def)
    from True have lt: "jr + 1 < nc" by linarith
    from ok1 have ok1': "gs_ok s1 nc (jr + 1) (fst (sa1, sm1, ss1)) (fst (snd (sa1, sm1, ss1)))"
      by simp
    from "1.prems"(3) S1 have S: "nc \<le> m_numSpeciesTot s1" by simp
    from "1.IH" [OF pk refl refl refl refl s1_def aw2_def True rec ok1' S lt]
    show ?thesis .
  next
    case False
    with "1.prems"(1) pk have fin: "s' = s1" "sa' = sa1" "sm' = sm1"
      by (simp_all add: rearrange_loop.simps [of s nc test jr aw w] Let_def s1_def)
    from False "1.prems"(4) have "Suc jr = nc" by linarith
    with ok1 fin show ?thesis by simp
  qed
qed

lemma gs_ok_start: "gs_ok s nc 0 sa sm"
  by (simp add: gs_ok_def)

lemma vcs_elem_rearrange_gs:
  assumes r: "vcs_elem_rearrange s aw sa sm ss = Inr (st, s', aw', sa', sm', ss')"
    and S: "m_numComponents s \<le> m_numSpeciesTot s"
  shows "gs_ok s' (m_numComponents s) (m_numComponents s) sa' sm'"
proof -
  from vcs_elem_rearrange_loop [OF r] obtain test aw0 where
    lp: "rearrange_loop s (m_numComponents s) test 0 aw0 (sa, sm, ss)
              = Some (s', aw', sa', sm', ss')"
    by blast
  from rearrange_loop_facts [OF lp] have nc: "0 < m_numComponents s" by (rule conjunct1)
  have "gs_ok s (m_numComponents s) 0 (fst (sa, sm, ss)) (fst (snd (sa, sm, ss)))"
    by (rule gs_ok_start)
  from rearrange_loop_gs [OF lp this S nc] show ?thesis .
qed

lemma gs_ok_lin_indep_rows:
  assumes "gs_ok s (m_numComponents s) (m_numComponents s) sa sm"
  shows "lin_indep_rows s"
  unfolding lin_indep_rows_def
proof (rule allI, rule impI)
  fix c assume "\<forall>k < m_numComponents s. (\<Sum>j < m_numComponents s. c j * FormulaMatrix s j k) = 0"
  with gs_ok_independent [OF assms, of c]
  show "\<forall>j < m_numComponents s. c j = 0" by blast
qed

lemma vcs_elem_rearrange_independent:
  assumes r: "vcs_elem_rearrange s aw sa sm ss = Inr (st, s', aw', sa', sm', ss')"
    and S: "m_numComponents s \<le> m_numSpeciesTot s"
  shows "independent_active s"
proof -
  let ?C = "m_numComponents s"
  from vcs_elem_rearrange_facts [OF r] obtain p where
    le: "?C \<le> m_numElemConstraints s"
    and p: "bij p" "\<forall>i. m_numElemConstraints s \<le> i \<longrightarrow> p i = i" "reordered s p s'"
    and act: "\<forall>j < ?C. ElActive s' j \<noteq> 0"
    by auto
  from p(3) have A: "ElActive s' = ElActive s \<circ> p"
    and C': "m_numComponents s' = ?C"
    and F: "FormulaMatrix s' =
       (\<lambda>r c. if c < m_numSpeciesTot s then FormulaMatrix s (p r) c else FormulaMatrix s r c)"
    by (simp_all add: reordered_def)
  from vcs_elem_rearrange_gs [OF r S] have ok: "gs_ok s' ?C ?C sa' sm'" .
  have inj: "inj_on p {..<?C}" using p(1) by (simp add: bij_def inj_on_def inj_def)
  have rng: "\<forall>j < ?C. p j < m_numElemConstraints s \<and> ElActive s (p j) \<noteq> 0"
  proof (intro allI impI)
    fix j assume j: "j < ?C"
    with le have "j < m_numElemConstraints s" by simp
    from reordered_bij_below [OF p(1) p(2) this] have "p j < m_numElemConstraints s" .
    moreover from act j A have "ElActive s (p j) \<noteq> 0" by simp
    ultimately show "p j < m_numElemConstraints s \<and> ElActive s (p j) \<noteq> 0" by simp
  qed
  have ind: "\<forall>a. (\<forall>l < ?C. (\<Sum>j < ?C. a j * FormulaMatrix s (p j) l) = 0)
               \<longrightarrow> (\<forall>j < ?C. a j = 0)"
  proof (rule allI, rule impI)
    fix a assume z: "\<forall>l < ?C. (\<Sum>j < ?C. a j * FormulaMatrix s (p j) l) = 0"
    have "\<forall>l < ?C. (\<Sum>j < ?C. a j * FormulaMatrix s' j l) = 0"
    proof (intro allI impI)
      fix l assume l: "l < ?C"
      with S have "l < m_numSpeciesTot s" by simp
      then have "(\<Sum>j < ?C. a j * FormulaMatrix s' j l) = (\<Sum>j < ?C. a j * FormulaMatrix s (p j) l)"
        by (simp add: F)
      with z l show "(\<Sum>j < ?C. a j * FormulaMatrix s' j l) = 0" by simp
    qed
    from gs_ok_independent [OF ok this] show "\<forall>j < ?C. a j = 0" .
  qed
  show ?thesis
    unfolding independent_active_def
    by (intro exI [of _ p] conjI) (fact inj rng ind)+
qed

text \<open>
  C7: the rearranger either leaves through \<^verbatim>\<open>exit(-1)\<close> or returns
  \<^verbatim>\<open>VCS_SUCCESS\<close>, and nothing else. When it returns, there is at least one
  component, the constraints are the original ones in a new order, and each of the first
  \<open>m_numComponents\<close> positions holds an accepted constraint: an active one whose
  residual norm \<open>sa\<close> reached the threshold \<open>1e-6\<close>; when the components are among
  the species (\<open>m_numComponents \<le> m_numSpeciesTot\<close>), the rows of \<open>sm\<close> are the
  Gram-Schmidt residuals of the first \<open>m_numComponents\<close> rows of the returned formula
  matrix, and these rows are linearly independent. The routine exits when fewer active
  constraints exist than components are declared, and it exits when no
  \<open>m_numComponents\<close> active constraints have linearly independent rows.
\<close>

theorem rearrange_exits_or_succeeds:
  "(vcs_elem_rearrange s aw sa sm ss = Inl VCS_EXIT \<or>
    (\<exists>s' aw' sa' sm' ss' p.
       vcs_elem_rearrange s aw sa sm ss = Inr (VCS_SUCCESS, s', aw', sa', sm', ss') \<and>
       0 < m_numComponents s \<and> m_numComponents s \<le> m_numElemConstraints s \<and>
       bij p \<and> reordered s p s' \<and>
       (\<forall>j < m_numComponents s. ElActive s' j \<noteq> 0 \<and> 1 / 10 ^ 6 \<le> sa' j) \<and>
       (m_numComponents s \<le> m_numSpeciesTot s \<longrightarrow>
          gs_ok s' (m_numComponents s) (m_numComponents s) sa' sm' \<and> lin_indep_rows s'))) \<and>
   (card {i. i < m_numElemConstraints s \<and> ElActive s i \<noteq> 0} < m_numComponents s
      \<longrightarrow> vcs_elem_rearrange s aw sa sm ss = Inl VCS_EXIT) \<and>
   (m_numComponents s \<le> m_numSpeciesTot s \<and> \<not> independent_active s
      \<longrightarrow> vcs_elem_rearrange s aw sa sm ss = Inl VCS_EXIT)"
proof (intro conjI impI)
  show "vcs_elem_rearrange s aw sa sm ss = Inl VCS_EXIT \<or>
    (\<exists>s' aw' sa' sm' ss' p.
       vcs_elem_rearrange s aw sa sm ss = Inr (VCS_SUCCESS, s', aw', sa', sm', ss') \<and>
       0 < m_numComponents s \<and> m_numComponents s \<le> m_numElemConstraints s \<and>
       bij p \<and> reordered s p s' \<and>
       (\<forall>j < m_numComponents s. ElActive s' j \<noteq> 0 \<and> 1 / 10 ^ 6 \<le> sa' j) \<and>
       (m_numComponents s \<le> m_numSpeciesTot s \<longrightarrow>
          gs_ok s' (m_numComponents s) (m_numComponents s) sa' sm' \<and> lin_indep_rows s'))"
  proof (cases "vcs_elem_rearrange s aw sa sm ss = Inl VCS_EXIT")
    case True
    then show ?thesis by simp
  next
    case False
    with vcs_elem_rearrange_cases [of s aw sa sm ss] obtain s' aw' sa' sm' ss' where
      r: "vcs_elem_rearrange s aw sa sm ss = Inr (VCS_SUCCESS, s', aw', sa', sm', ss')"
      by blast
    from vcs_elem_rearrange_facts [OF r] obtain p where
      f: "0 < m_numComponents s" "m_numComponents s \<le> m_numElemConstraints s"
         "bij p" "reordered s p s'"
         "\<forall>j < m_numComponents s. ElActive s' j \<noteq> 0 \<and> 1 / 10 ^ 6 \<le> sa' j"
      by auto
    from f(4) have C': "m_numComponents s' = m_numComponents s" by (simp add: reordered_def)
    have g: "m_numComponents s \<le> m_numSpeciesTot s \<longrightarrow>
          gs_ok s' (m_numComponents s) (m_numComponents s) sa' sm' \<and> lin_indep_rows s'"
    proof
      assume "m_numComponents s \<le> m_numSpeciesTot s"
      from vcs_elem_rearrange_gs [OF r this]
      have ok: "gs_ok s' (m_numComponents s) (m_numComponents s) sa' sm'" .
      then have "gs_ok s' (m_numComponents s') (m_numComponents s') sa' sm'" by (simp add: C')
      then have "lin_indep_rows s'" by (rule gs_ok_lin_indep_rows)
      with ok show "gs_ok s' (m_numComponents s) (m_numComponents s) sa' sm' \<and> lin_indep_rows s'"
        by simp
    qed
    show ?thesis
      by (rule disjI2, intro exI [of _ s'] exI [of _ aw'] exI [of _ sa'] exI [of _ sm']
            exI [of _ ss'] exI [of _ p] conjI) (fact r f g)+
  qed
next
  assume c: "card {i. i < m_numElemConstraints s \<and> ElActive s i \<noteq> 0} < m_numComponents s"
  show "vcs_elem_rearrange s aw sa sm ss = Inl VCS_EXIT"
  proof (rule ccontr)
    assume "vcs_elem_rearrange s aw sa sm ss \<noteq> Inl VCS_EXIT"
    with vcs_elem_rearrange_cases [of s aw sa sm ss] obtain s' aw' sa' sm' ss' where
      r: "vcs_elem_rearrange s aw sa sm ss = Inr (VCS_SUCCESS, s', aw', sa', sm', ss')"
      by blast
    from vcs_elem_rearrange_needs_active [OF r] c show False by simp
  qed
next
  assume c: "m_numComponents s \<le> m_numSpeciesTot s \<and> \<not> independent_active s"
  show "vcs_elem_rearrange s aw sa sm ss = Inl VCS_EXIT"
  proof (rule ccontr)
    assume "vcs_elem_rearrange s aw sa sm ss \<noteq> Inl VCS_EXIT"
    with vcs_elem_rearrange_cases [of s aw sa sm ss] obtain s' aw' sa' sm' ss' where
      r: "vcs_elem_rearrange s aw sa sm ss = Inr (VCS_SUCCESS, s', aw', sa', sm', ss')"
      by blast
    from vcs_elem_rearrange_independent [OF r] c show False by simp
  qed
qed

text \<open>
  C9 as stated fails: on \<open>ex_reinsert\<close> the step of stage 3 is damped, stage 4 adjusts
  the species 0 and 1 and then finds species 3, which is outside the reduced problem, and
  reinserts it. The reinsertion exchanges the species 2 and 3, and with them the columns
  2 and 3 of the formula matrix: four entries of the formula matrix differ before and
  after the call of the corrector.
\<close>

theorem constraint_data_frame_counterexample:
  "FormulaMatrix ex_reinsert 0 2 = 1 \<and> FormulaMatrix ex_reinsert 0 3 = 0 \<and>
   FormulaMatrix ex_reinsert 1 2 = 0 \<and> FormulaMatrix ex_reinsert 1 3 = 1 \<and>
   map_sum id (\<lambda>(r, s'). (r, m_numSpeciesRdc s', soln s' 0, soln s' 1, soln s' 2, soln s' 3,
        FormulaMatrix s' 0 2, FormulaMatrix s' 0 3, FormulaMatrix s' 1 2, FormulaMatrix s' 1 3))
     (vcs_elcorr (1 / 10 ^ 140) ex_mlequ vcs_reinsert_deleted ex_reinsert (\<lambda>_. 0) (\<lambda>_. 0))
     = Inr (Retn 2, 3, 1 / 10 ^ 10, 5 + 1 / 10 ^ 10, 0, 0, 0, 1, 1, 0)"
  using ex_reinsert_run [of "\<lambda>_. 0" "\<lambda>_. 0"]
  by (simp add: ex_reinsert_def vcs_blank_def)

text \<open>
  C9, amended: the statements of the corrector write the mole numbers, the current
  abundances, the species status and the phase totals only; whatever else a call of the
  corrector changes, it changes through the one reinsertion that stage 4 may call, for a
  species outside the reduced problem. With the reinsertion as modelled the corrector
  leaves the target abundances and the type tags, active flags and names of the
  constraints as they are, and the formula matrix is afterwards either the same or the
  same with two species columns exchanged, one of them the first column outside the
  reduced problem. The evaluator changes none of these arrays, and the checker only yields
  a verdict. The rearranger returns them read through a bijection \<open>p\<close> of the constraint
  positions that fixes every position from \<open>m_numElemConstraints\<close> on (the formula
  matrix in the columns of the species): positions change, values do not.
\<close>

theorem constraint_data_frame:
  "(\<forall>r s'. vcs_elcorr cutoff mlequ reinsert s aa x = Inr (r, s') \<longrightarrow>
      same_problem s s' \<or>
      (\<exists>k t. same_problem s t \<and> m_numSpeciesRdc t \<le> k \<and> same_problem (reinsert k t) s')) \<and>
   (\<forall>r s'. vcs_elcorr cutoff mlequ vcs_reinsert_deleted s aa x = Inr (r, s') \<longrightarrow>
      gai s' = gai s \<and> m_elType s' = m_elType s \<and> ElActive s' = ElActive s \<and>
      ElName s' = ElName s \<and>
      (FormulaMatrix s' = FormulaMatrix s \<or>
       (\<exists>k \<ge> m_numSpeciesRdc s.
          FormulaMatrix s' = (\<lambda>i c. FormulaMatrix s i (swap_idx (m_numSpeciesRdc s) k c))))) \<and>
   same_constraints s (vcs_elab s) \<and>
   (\<forall>st s' w. vcs_elem_rearrange s aw sa sm ss = Inr (st, s', w) \<longrightarrow>
      (\<exists>p. bij p \<and> (\<forall>i. m_numElemConstraints s \<le> i \<longrightarrow> p i = i) \<and>
           gai s' = gai s \<circ> p \<and> m_elType s' = m_elType s \<circ> p \<and>
           ElActive s' = ElActive s \<circ> p \<and> ElName s' = ElName s \<circ> p \<and>
           FormulaMatrix s' =
             (\<lambda>r c. if c < m_numSpeciesTot s then FormulaMatrix s (p r) c
                    else FormulaMatrix s r c)))"
proof (intro conjI allI impI)
  fix r s' assume "vcs_elcorr cutoff mlequ reinsert s aa x = Inr (r, s')"
  from vcs_elcorr_facts [OF this]
  show "same_problem s s' \<or>
      (\<exists>k t. same_problem s t \<and> m_numSpeciesRdc t \<le> k \<and> same_problem (reinsert k t) s')"
    by (rule conjunct1)
next
  fix r s' assume r: "vcs_elcorr cutoff mlequ vcs_reinsert_deleted s aa x = Inr (r, s')"
  note f = vcs_elcorr_reinsert_frame [OF r]
  from f show "gai s' = gai s" by (rule conjunct1)
  from f show "m_elType s' = m_elType s" by (rule conjunct2 [THEN conjunct1])
  from f show "ElActive s' = ElActive s" by (rule conjunct2 [THEN conjunct2, THEN conjunct1])
  from f show "ElName s' = ElName s"
    by (rule conjunct2 [THEN conjunct2, THEN conjunct2, THEN conjunct1])
  from f show "FormulaMatrix s' = FormulaMatrix s \<or>
       (\<exists>k \<ge> m_numSpeciesRdc s.
          FormulaMatrix s' = (\<lambda>i c. FormulaMatrix s i (swap_idx (m_numSpeciesRdc s) k c)))"
    by (rule conjunct2 [THEN conjunct2, THEN conjunct2, THEN conjunct2])
next
  show "same_constraints s (vcs_elab s)"
    by (rule same_problem_constraints [OF same_problem_elab])
next
  fix st s' w assume r: "vcs_elem_rearrange s aw sa sm ss = Inr (st, s', w)"
  obtain aw' sa' sm' ss' where w: "w = (aw', sa', sm', ss')" by (cases w) auto
  from vcs_elem_rearrange_facts [OF r [unfolded w]] obtain p where
    p: "bij p" "\<forall>i. m_numElemConstraints s \<le> i \<longrightarrow> p i = i" "reordered s p s'"
    by auto
  from p(3) have q: "gai s' = gai s \<circ> p" "m_elType s' = m_elType s \<circ> p"
      "ElActive s' = ElActive s \<circ> p" "ElName s' = ElName s \<circ> p"
      "FormulaMatrix s' =
         (\<lambda>r c. if c < m_numSpeciesTot s then FormulaMatrix s (p r) c
                else FormulaMatrix s r c)"
    by (simp_all add: reordered_def)
  show "\<exists>p. bij p \<and> (\<forall>i. m_numElemConstraints s \<le> i \<longrightarrow> p i = i) \<and>
                 gai s' = gai s \<circ> p \<and> m_elType s' = m_elType s \<circ> p \<and>
                 ElActive s' = ElActive s \<circ> p \<and> ElName s' = ElName s \<circ> p \<and>
                 FormulaMatrix s' =
                   (\<lambda>r c. if c < m_numSpeciesTot s then FormulaMatrix s (p r) c
                          else FormulaMatrix s r c)"
    by (intro exI [of _ p] conjI) (fact p q)+
qed

lemmas gs_defs = gs_candidate_def gs_fill_def gs_dot_def gs_coeff_def gs_sub_def gs_orth_def
  gs_norm_def rearrange_find_def

lemma ex_small_eval:
  "map_sum id (\<lambda>(st, s', aw', sa', sm', ss').
        (st, gai s' 0, gai s' 1, FormulaMatrix s' 0 0, FormulaMatrix s' 1 0, sa' 0))
     (vcs_elem_rearrange ex_small (\<lambda>_. 0) (\<lambda>_. 0) (\<lambda>_. 0) (\<lambda>_. 0))
   = Inr (VCS_SUCCESS, 3, 2, 1, 1 / 10000, 1)"
  by (simp add: vcs_elem_rearrange_def rearrange_test_def gs_defs ex_small_def vcs_blank_def
      upt_0_1 upt_0_2 upt_1_2 Let_def power2_eq_square
      vcs_switch_elem_pos_eq vcsUtil_dsw_def vcsUtil_isw_def vcsUtil_stsw_def)

lemma map_sum_InrD:
  "map_sum f g X = Inr v \<Longrightarrow> \<exists>y. X = Inr y \<and> g y = v"
  by (cases X) auto

lemma ex_redundant_eval:
  "map_sum id (\<lambda>(st, s', aw', sa', sm', ss').
        (st, gai s' 0, gai s' 1, gai s' 2, FormulaMatrix s' 1 0, FormulaMatrix s' 1 1,
         FormulaMatrix s' 2 0, FormulaMatrix s' 2 1, sa' 0, sa' 1))
     (vcs_elem_rearrange ex_redundant (\<lambda>_. 0) (\<lambda>_. 0) (\<lambda>_. 0) (\<lambda>_. 0))
   = Inr (VCS_SUCCESS, 1, 3, 2, 0, 1, 2, 0, 1, 1)"
  by (simp add: vcs_elem_rearrange_def rearrange_test_def gs_defs ex_redundant_def vcs_blank_def
      upt_0_1 upt_0_2 upt_1_2 upt_0_3 upt_1_3 upt_2_3 Let_def power2_eq_square
      vcs_switch_elem_pos_eq vcsUtil_dsw_def vcsUtil_isw_def vcsUtil_stsw_def)

lemma ex_dependent_rows: "\<not> independent_active ex_dependent"
proof
  assume "independent_active ex_dependent"
  then obtain f where inj: "inj_on f {..<(2::nat)}"
    and rng: "\<forall>j<(2::nat). f j < 2"
    and ind: "\<forall>a. (\<forall>l<(2::nat). (\<Sum>j<(2::nat). a j * FormulaMatrix ex_dependent (f j) l) = 0)
               \<longrightarrow> (\<forall>j<(2::nat). a j = 0)"
    unfolding independent_active_def
    by (auto simp add: ex_dependent_def ex_redundant_def vcs_blank_def)
  from inj_onD [OF inj, of 0 1] have ne: "f 0 \<noteq> f 1" by auto
  from rng have r: "f 0 < 2" "f 1 < 2" by simp_all
  define a :: "nat \<Rightarrow> real" where "a j = (if f j = 0 then 2 else - 1)" for j
  have "\<forall>l<(2::nat). (\<Sum>j<(2::nat). a j * FormulaMatrix ex_dependent (f j) l) = 0"
  proof (intro allI impI)
    fix l :: nat assume "l < 2"
    from ne r have "(f 0 = 0 \<and> f 1 = 1) \<or> (f 0 = 1 \<and> f 1 = 0)" by auto
    then show "(\<Sum>j<(2::nat). a j * FormulaMatrix ex_dependent (f j) l) = 0"
      by (auto simp add: a_def sum_upto_2 ex_dependent_def ex_redundant_def vcs_blank_def)
  qed
  with ind have "a 0 = 0" by simp
  then show False by (simp add: a_def split: if_splits)
qed

theorem rearrange_exits_or_succeeds_witness:
  "(\<exists>s' aw' sa' sm' ss' p.
       vcs_elem_rearrange ex_redundant (\<lambda>_. 0) (\<lambda>_. 0) (\<lambda>_. 0) (\<lambda>_. 0)
         = Inr (VCS_SUCCESS, s', aw', sa', sm', ss') \<and>
       bij p \<and> reordered ex_redundant p s' \<and>
       ElActive s' 0 \<noteq> 0 \<and> 1 / 10 ^ 6 \<le> sa' 0 \<and> ElActive s' 1 \<noteq> 0 \<and> 1 / 10 ^ 6 \<le> sa' 1 \<and>
       gs_ok s' 2 2 sa' sm' \<and> lin_indep_rows s' \<and>
       FormulaMatrix s' 1 0 = 0 \<and> FormulaMatrix s' 1 1 = 1 \<and>
       FormulaMatrix s' 2 0 = 2 \<and> FormulaMatrix s' 2 1 = 0) \<and>
   vcs_elem_rearrange ex_dependent (\<lambda>_. 0) (\<lambda>_. 0) (\<lambda>_. 0) (\<lambda>_. 0) = Inl VCS_EXIT \<and>
   vcs_elem_rearrange ex_inactive (\<lambda>_. 0) (\<lambda>_. 0) (\<lambda>_. 0) (\<lambda>_. 0) = Inl VCS_EXIT"
proof (intro conjI)
  from ex_redundant_eval
  have ne: "vcs_elem_rearrange ex_redundant (\<lambda>_. 0) (\<lambda>_. 0) (\<lambda>_. 0) (\<lambda>_. 0) \<noteq> Inl VCS_EXIT"
    by auto
  have C: "m_numComponents ex_redundant = 2" "m_numComponents ex_redundant \<le> m_numSpeciesTot ex_redundant"
    by (simp_all add: ex_redundant_def vcs_blank_def)
  from rearrange_exits_or_succeeds [of ex_redundant "\<lambda>_. 0" "\<lambda>_. 0" "\<lambda>_. 0" "\<lambda>_. 0"] ne
  obtain s' aw' sa' sm' ss' p where
    r: "vcs_elem_rearrange ex_redundant (\<lambda>_. 0) (\<lambda>_. 0) (\<lambda>_. 0) (\<lambda>_. 0)
         = Inr (VCS_SUCCESS, s', aw', sa', sm', ss')"
    and p: "bij p" "reordered ex_redundant p s'"
    and a: "\<forall>j < m_numComponents ex_redundant. ElActive s' j \<noteq> 0 \<and> 1 / 10 ^ 6 \<le> sa' j"
    and g: "m_numComponents ex_redundant \<le> m_numSpeciesTot ex_redundant \<longrightarrow>
          gs_ok s' (m_numComponents ex_redundant) (m_numComponents ex_redundant) sa' sm' \<and>
          lin_indep_rows s'"
    by auto
  from a C have a0: "ElActive s' 0 \<noteq> 0" "1 / 10 ^ 6 \<le> sa' 0" "ElActive s' 1 \<noteq> 0"
      "1 / 10 ^ 6 \<le> sa' 1" by simp_all
  from g C have g2: "gs_ok s' 2 2 sa' sm'" "lin_indep_rows s'" by simp_all
  from ex_redundant_eval r
  have fm: "FormulaMatrix s' 1 0 = 0" "FormulaMatrix s' 1 1 = 1"
      "FormulaMatrix s' 2 0 = 2" "FormulaMatrix s' 2 1 = 0"
    by simp_all
  show "\<exists>s' aw' sa' sm' ss' p.
       vcs_elem_rearrange ex_redundant (\<lambda>_. 0) (\<lambda>_. 0) (\<lambda>_. 0) (\<lambda>_. 0)
         = Inr (VCS_SUCCESS, s', aw', sa', sm', ss') \<and>
       bij p \<and> reordered ex_redundant p s' \<and>
       ElActive s' 0 \<noteq> 0 \<and> 1 / 10 ^ 6 \<le> sa' 0 \<and> ElActive s' 1 \<noteq> 0 \<and> 1 / 10 ^ 6 \<le> sa' 1 \<and>
       gs_ok s' 2 2 sa' sm' \<and> lin_indep_rows s' \<and>
       FormulaMatrix s' 1 0 = 0 \<and> FormulaMatrix s' 1 1 = 1 \<and>
       FormulaMatrix s' 2 0 = 2 \<and> FormulaMatrix s' 2 1 = 0"
    by (intro exI [of _ s'] exI [of _ aw'] exI [of _ sa'] exI [of _ sm']
          exI [of _ ss'] exI [of _ p] conjI) (fact r p a0 g2 fm)+
next
  have "m_numComponents ex_dependent \<le> m_numSpeciesTot ex_dependent \<and>
        \<not> independent_active ex_dependent"
    using ex_dependent_rows by (simp add: ex_dependent_def ex_redundant_def vcs_blank_def)
  with rearrange_exits_or_succeeds [of ex_dependent "\<lambda>_. 0" "\<lambda>_. 0" "\<lambda>_. 0" "\<lambda>_. 0"]
  show "vcs_elem_rearrange ex_dependent (\<lambda>_. 0) (\<lambda>_. 0) (\<lambda>_. 0) (\<lambda>_. 0) = Inl VCS_EXIT"
    by (rule conjunct2 [THEN conjunct2, THEN mp])
next
  have "card {i. i < m_numElemConstraints ex_inactive \<and> ElActive ex_inactive i \<noteq> 0}
          < m_numComponents ex_inactive"
    by (simp add: ex_inactive_def ex_small_def vcs_blank_def)
  with rearrange_exits_or_succeeds [of ex_inactive "\<lambda>_. 0" "\<lambda>_. 0" "\<lambda>_. 0" "\<lambda>_. 0"]
  show "vcs_elem_rearrange ex_inactive (\<lambda>_. 0) (\<lambda>_. 0) (\<lambda>_. 0) (\<lambda>_. 0) = Inl VCS_EXIT"
    by (rule conjunct2 [THEN conjunct1, THEN mp])
qed

theorem constraint_data_frame_witness:
  "(\<exists>r s' k t. vcs_elcorr (1 / 10 ^ 140) ex_mlequ vcs_reinsert_deleted ex_reinsert (\<lambda>_. 0) (\<lambda>_. 0)
               = Inr (r, s') \<and>
             gai s' = gai ex_reinsert \<and> m_elType s' = m_elType ex_reinsert \<and>
             ElActive s' = ElActive ex_reinsert \<and> ElName s' = ElName ex_reinsert \<and>
             2 \<le> k \<and> FormulaMatrix s' = (\<lambda>i c. FormulaMatrix ex_reinsert i (swap_idx 2 k c)) \<and>
             FormulaMatrix s' \<noteq> FormulaMatrix ex_reinsert \<and>
             same_problem ex_reinsert t \<and> same_problem (vcs_reinsert_deleted k t) s') \<and>
   same_constraints ex_reinsert (vcs_elab ex_reinsert) \<and>
   (\<exists>st s' w p. vcs_elem_rearrange ex_small (\<lambda>_. 0) (\<lambda>_. 0) (\<lambda>_. 0) (\<lambda>_. 0)
               = Inr (st, s', w) \<and> bij p \<and>
               gai s' = gai ex_small \<circ> p \<and> m_elType s' = m_elType ex_small \<circ> p \<and>
               ElActive s' = ElActive ex_small \<circ> p \<and> ElName s' = ElName ex_small \<circ> p \<and>
               FormulaMatrix s' =
                   (\<lambda>r c. if c < m_numSpeciesTot ex_small then FormulaMatrix ex_small (p r) c
                          else FormulaMatrix ex_small r c))"
proof -
  note fc = constraint_data_frame [of "1 / 10 ^ 140" ex_mlequ vcs_reinsert_deleted ex_reinsert
              "\<lambda>_. 0" "\<lambda>_. 0" "\<lambda>_. 0" "\<lambda>_. 0" "\<lambda>_. 0" "\<lambda>_. 0"]
  note fs = constraint_data_frame [of "1 / 10 ^ 140" ex_mlequ vcs_reinsert_deleted ex_small
              "\<lambda>_. 0" "\<lambda>_. 0" "\<lambda>_. 0" "\<lambda>_. 0" "\<lambda>_. 0" "\<lambda>_. 0"]
  note run = ex_reinsert_run [of "\<lambda>_. 0" "\<lambda>_. 0"]
  from run
  obtain y where "vcs_elcorr (1 / 10 ^ 140) ex_mlequ vcs_reinsert_deleted ex_reinsert (\<lambda>_. 0) (\<lambda>_. 0) = Inr y"
    by (auto dest: map_sum_InrD)
  then obtain r s' where
    e: "vcs_elcorr (1 / 10 ^ 140) ex_mlequ vcs_reinsert_deleted ex_reinsert (\<lambda>_. 0) (\<lambda>_. 0) = Inr (r, s')"
    by (cases y) auto
  from run e have v: "FormulaMatrix s' 0 2 = 0" by simp
  have v0: "FormulaMatrix ex_reinsert 0 2 = 1" by (simp add: ex_reinsert_def vcs_blank_def)
  from v v0 have ne: "FormulaMatrix s' \<noteq> FormulaMatrix ex_reinsert" by auto
  have N: "m_numSpeciesRdc ex_reinsert = 2" by (simp add: ex_reinsert_def vcs_blank_def)
  from fc e have g: "gai s' = gai ex_reinsert" "m_elType s' = m_elType ex_reinsert"
      "ElActive s' = ElActive ex_reinsert" "ElName s' = ElName ex_reinsert"
    and fm: "FormulaMatrix s' = FormulaMatrix ex_reinsert \<or>
       (\<exists>k \<ge> m_numSpeciesRdc ex_reinsert.
          FormulaMatrix s' = (\<lambda>i c. FormulaMatrix ex_reinsert i (swap_idx (m_numSpeciesRdc ex_reinsert) k c)))"
    by blast+
  from fm ne N obtain k where k: "2 \<le> k"
      "FormulaMatrix s' = (\<lambda>i c. FormulaMatrix ex_reinsert i (swap_idx 2 k c))"
    by auto
  from fc e have "same_problem ex_reinsert s' \<or>
      (\<exists>k t. same_problem ex_reinsert t \<and> m_numSpeciesRdc t \<le> k \<and>
             same_problem (vcs_reinsert_deleted k t) s')"
    by blast
  moreover from ne have "\<not> same_problem ex_reinsert s'" by (auto simp add: same_problem_def)
  ultimately obtain k' t where kt: "same_problem ex_reinsert t" "m_numSpeciesRdc t \<le> k'"
      "same_problem (vcs_reinsert_deleted k' t) s'"
    by blast
  have kk: "k' = k"
  proof -
    from kt(1) have t: "FormulaMatrix t = FormulaMatrix ex_reinsert" "m_numSpeciesRdc t = 2"
      by (simp_all add: same_problem_def N)
    from kt(3) have "FormulaMatrix s' = FormulaMatrix (vcs_reinsert_deleted k' t)"
      by (simp add: same_problem_def)
    with vcs_reinsert_deleted_frame [of k' t] t
    have a: "FormulaMatrix s' = (\<lambda>i c. FormulaMatrix ex_reinsert i (swap_idx 2 k' c))" by simp
    from run e have w: "FormulaMatrix s' 0 3 = 1" by simp
    have row: "FormulaMatrix ex_reinsert 0 c = 1 \<longleftrightarrow> c = 0 \<or> c = 2" for c
      by (simp add: ex_reinsert_def vcs_blank_def)
    from w a have "swap_idx 2 k' 3 = 0 \<or> swap_idx 2 k' 3 = 2" by (simp add: row)
    then have 1: "k' = 3" by (auto simp add: swap_idx_def split: if_splits)
    from w k(2) have "swap_idx 2 k 3 = 0 \<or> swap_idx 2 k 3 = 2" by (simp add: row)
    then have "k = 3" by (auto simp add: swap_idx_def split: if_splits)
    with 1 show ?thesis by simp
  qed
  have T: "same_problem ex_reinsert t" "same_problem (vcs_reinsert_deleted k t) s'"
    using kt kk by simp_all
  from fc have c2: "same_constraints ex_reinsert (vcs_elab ex_reinsert)" by blast
  from ex_small_eval
  obtain z where "vcs_elem_rearrange ex_small (\<lambda>_. 0) (\<lambda>_. 0) (\<lambda>_. 0) (\<lambda>_. 0) = Inr z"
    by (auto dest: map_sum_InrD)
  then obtain st t' w where
    q: "vcs_elem_rearrange ex_small (\<lambda>_. 0) (\<lambda>_. 0) (\<lambda>_. 0) (\<lambda>_. 0) = Inr (st, t', w)"
    by (cases z) auto
  with fs obtain p where p: "bij p"
    "gai t' = gai ex_small \<circ> p" "m_elType t' = m_elType ex_small \<circ> p"
    "ElActive t' = ElActive ex_small \<circ> p" "ElName t' = ElName ex_small \<circ> p"
    "FormulaMatrix t' =
       (\<lambda>r c. if c < m_numSpeciesTot ex_small then FormulaMatrix ex_small (p r) c
              else FormulaMatrix ex_small r c)"
    by blast
  have A: "\<exists>r s' k t. vcs_elcorr (1 / 10 ^ 140) ex_mlequ vcs_reinsert_deleted ex_reinsert (\<lambda>_. 0) (\<lambda>_. 0)
               = Inr (r, s') \<and>
             gai s' = gai ex_reinsert \<and> m_elType s' = m_elType ex_reinsert \<and>
             ElActive s' = ElActive ex_reinsert \<and> ElName s' = ElName ex_reinsert \<and>
             2 \<le> k \<and> FormulaMatrix s' = (\<lambda>i c. FormulaMatrix ex_reinsert i (swap_idx 2 k c)) \<and>
             FormulaMatrix s' \<noteq> FormulaMatrix ex_reinsert \<and>
             same_problem ex_reinsert t \<and> same_problem (vcs_reinsert_deleted k t) s'"
    by (intro exI [of _ r] exI [of _ s'] exI [of _ k] exI [of _ t] conjI) (fact e g k ne T)+
  have B: "\<exists>st s' w p. vcs_elem_rearrange ex_small (\<lambda>_. 0) (\<lambda>_. 0) (\<lambda>_. 0) (\<lambda>_. 0)
               = Inr (st, s', w) \<and> bij p \<and>
               gai s' = gai ex_small \<circ> p \<and> m_elType s' = m_elType ex_small \<circ> p \<and>
               ElActive s' = ElActive ex_small \<circ> p \<and> ElName s' = ElName ex_small \<circ> p \<and>
               FormulaMatrix s' =
                   (\<lambda>r c. if c < m_numSpeciesTot ex_small then FormulaMatrix ex_small (p r) c
                          else FormulaMatrix ex_small r c)"
    by (intro exI [of _ st] exI [of _ t'] exI [of _ w] exI [of _ p] conjI) (fact q p)+
  from A c2 B show ?thesis by (intro conjI)
qed

section \<open>The rearranger on constraints that are already in order\<close>

lemma rearrange_sentinel_plain:
  assumes "\<forall>i < m_numElemConstraints s. - (10 ^ 10) \<le> gai s i"
  shows "rearrange_sentinel s (- (10 ^ 10)) aw =
           (- (10 ^ 10) - real (m_numElemConstraints s),
            (\<lambda>i. if i < m_numElemConstraints s then gai s i else aw i))"
proof -
  have "\<not> (\<exists>i < m_numElemConstraints s. gai s i = - (10 ^ 10) - real (i + 1))"
  proof
    assume "\<exists>i < m_numElemConstraints s. gai s i = - (10 ^ 10) - real (i + 1)"
    then obtain i where "i < m_numElemConstraints s" "gai s i = - (10 ^ 10) - real (i + 1)"
      by blast
    with assms have "- (10 ^ 10) \<le> - (10 ^ 10) - real (i + 1)" by metis
    then show False by simp
  qed
  then have "fold (rearrange_test s) [0..<m_numElemConstraints s] (- (10 ^ 10), aw, False)
        = (- (10 ^ 10) - real (m_numElemConstraints s),
            (\<lambda>i. if i < m_numElemConstraints s then gai s i else aw i), False)"
    by (simp only: rearrange_test_fold) simp
  then show ?thesis
    by (subst rearrange_sentinel.simps) (simp only: prod.case if_False)
qed

lemma rearrange_find_here:
  assumes "jr < m_numElemConstraints s" and "ElActive s jr \<noteq> 0" and "aw jr \<noteq> test"
  shows "rearrange_find s aw test jr = jr"
proof -
  from assms(1) have "[jr..<m_numElemConstraints s] = jr # [Suc jr..<m_numElemConstraints s]"
    by (rule upt_conv_Cons)
  with assms(2,3) show ?thesis by (simp add: rearrange_find_def)
qed

lemma rearrange_pick_here:
  assumes "jr < m_numElemConstraints s" and "ElActive s jr \<noteq> 0" and "aw jr \<noteq> test"
    and "1 / 10 ^ 6 \<le> fst (gs_candidate s nc jr jr w) jr"
  shows "rearrange_pick s nc test jr aw w =
           Some (jr, aw(jr := test), gs_candidate s nc jr jr w)"
proof -
  obtain sa1 sm1 ss1 where g: "gs_candidate s nc jr jr w = (sa1, sm1, ss1)"
    by (cases "gs_candidate s nc jr jr w") auto
  with assms(4) have "\<not> sa1 jr < 1 / 10 ^ 6" by simp
  with rearrange_find_here [where aw = aw and jr = jr and test = test, OF assms(1-3)] assms(1) g show ?thesis
    by (subst rearrange_pick.simps) (simp add: Let_def)
qed

lemma rearrange_loop_in_order:
  assumes "nc \<le> m_numElemConstraints s"
    and "\<forall>j < nc. ElActive s j \<noteq> 0 \<and> awi j \<noteq> test \<and>
                    1 / 10 ^ 6 \<le> fst (gs_prefix s nc (Suc j) wi) j"
    and "jr < nc"
  shows "rearrange_loop s nc test jr (\<lambda>i. if i < jr then test else awi i) (gs_prefix s nc jr wi)
           = Some (s, (\<lambda>i. if i < nc then test else awi i), gs_prefix s nc nc wi)"
  using assms(3)
proof (induction "nc - jr" arbitrary: jr)
  case 0
  then show ?case by simp
next
  case (Suc n)
  let ?aw = "\<lambda>i. if i < jr then test else awi i"
  from Suc.prems assms(1) have jE: "jr < m_numElemConstraints s" by simp
  from Suc.prems assms(2) have a: "ElActive s jr \<noteq> 0" "?aw jr \<noteq> test"
    "1 / 10 ^ 6 \<le> fst (gs_candidate s nc jr jr (gs_prefix s nc jr wi)) jr"
    by simp_all
  have awS: "?aw(jr := test) = (\<lambda>i. if i < Suc jr then test else awi i)"
    by (auto simp add: fun_eq_iff)
  have pk: "rearrange_pick s nc test jr ?aw (gs_prefix s nc jr wi)
              = Some (jr, (\<lambda>i. if i < Suc jr then test else awi i), gs_prefix s nc (Suc jr) wi)"
    using rearrange_pick_here [where aw = "?aw" and jr = jr and test = test, OF jE a(1) a(2) a(3)] awS by simp
  obtain sa1 sm1 ss1 where g: "gs_prefix s nc (Suc jr) wi = (sa1, sm1, ss1)"
    by (cases "gs_prefix s nc (Suc jr) wi") auto
  show ?case
  proof (cases "int jr < int nc - 1")
    case True
    then have lt: "Suc jr < nc" by linarith
    from Suc.hyps(2) have "n = nc - Suc jr" by simp
    from Suc.hyps(1) [OF this lt]
    have "rearrange_loop s nc test (Suc jr) (\<lambda>i. if i < Suc jr then test else awi i)
            (sa1, sm1, ss1)
          = Some (s, (\<lambda>i. if i < nc then test else awi i), gs_prefix s nc nc wi)"
      by (simp only: g)
    with True show ?thesis
      by (subst rearrange_loop.simps) (simp only: pk g option.case prod.case Let_def, simp)
  next
    case False
    with Suc.prems have "Suc jr = nc" by linarith
    with False show ?thesis
      by (subst rearrange_loop.simps) (simp only: pk g option.case prod.case Let_def, simp)
  qed
qed


text \<open>
  C6 as stated fails: on \<open>ex_small\<close> the single component row \<open>(1e-4)\<close> is not
  zero, so the first \<open>m_numComponents\<close> rows are linearly independent; but its
  squared norm \<open>1e-8\<close> is below the routine's threshold \<open>1e-6\<close>, the routine rejects
  constraint 0, accepts constraint 1 and exchanges the two positions.
\<close>

theorem rearrange_keeps_order_counterexample:
  "lin_indep_rows ex_small \<and>
   gai ex_small 0 \<noteq> gai ex_small 1 \<and>
   map_sum id (\<lambda>(st, s', w). (gai s' 0, gai s' 1, FormulaMatrix s' 0 0, FormulaMatrix s' 1 0))
     (vcs_elem_rearrange ex_small (\<lambda>_. 0) (\<lambda>_. 0) (\<lambda>_. 0) (\<lambda>_. 0))
   = Inr (gai ex_small 1, gai ex_small 0, FormulaMatrix ex_small 1 0, FormulaMatrix ex_small 0 0)"
proof (intro conjI)
  show "lin_indep_rows ex_small"
    by (simp add: lin_indep_rows_def ex_small_def vcs_blank_def)
  show "gai ex_small 0 \<noteq> gai ex_small 1"
    by (simp add: ex_small_def vcs_blank_def)
  show "map_sum id (\<lambda>(st, s', w). (gai s' 0, gai s' 1, FormulaMatrix s' 0 0, FormulaMatrix s' 1 0))
     (vcs_elem_rearrange ex_small (\<lambda>_. 0) (\<lambda>_. 0) (\<lambda>_. 0) (\<lambda>_. 0))
   = Inr (gai ex_small 1, gai ex_small 0, FormulaMatrix ex_small 1 0, FormulaMatrix ex_small 0 0)"
    by (simp add: vcs_elem_rearrange_def rearrange_test_def gs_defs ex_small_def vcs_blank_def
      upt_0_1 upt_0_2 upt_1_2 Let_def power2_eq_square
      vcs_switch_elem_pos_eq vcsUtil_dsw_def vcsUtil_isw_def vcsUtil_stsw_def)
qed

text \<open>
  C6, amended: when there is at least one component and no more components than
  constraints, every target is at least \<open>-1e10\<close> (so no selection key equals the
  sentinel), the first \<open>m_numComponents\<close> constraints are active, and for each of them
  the squared norm of the Gram-Schmidt residual the routine computes against the rows
  before it is at least \<open>1e-6\<close>, the rearranger returns \<^verbatim>\<open>VCS_SUCCESS\<close> and the
  problem instance it returns is the one it was given: no position is exchanged and every
  constraint-indexed array is as before.
\<close>

theorem rearrange_keeps_order:
  assumes "0 < m_numComponents s" and "m_numComponents s \<le> m_numElemConstraints s"
    and "\<forall>i < m_numElemConstraints s. - (10 ^ 10) \<le> gai s i"
    and "\<forall>j < m_numComponents s. ElActive s j \<noteq> 0"
    and "\<forall>j < m_numComponents s.
           1 / 10 ^ 6 \<le> fst (gs_prefix s (m_numComponents s) (Suc j) (sa, sm, ss)) j"
  shows "\<exists>aw'. vcs_elem_rearrange s aw sa sm ss =
           Inr (VCS_SUCCESS, s, aw', gs_prefix s (m_numComponents s) (m_numComponents s) (sa, sm, ss))"
proof -
  let ?E = "m_numElemConstraints s"
  let ?C = "m_numComponents s"
  let ?test = "- (10 ^ 10) - real ?E"
  let ?aw0 = "\<lambda>i. if i < ?E then gai s i else aw i"
  have sen: "rearrange_sentinel s (- (10 ^ 10)) aw = (?test, ?aw0)"
    by (rule rearrange_sentinel_plain [OF assms(3)])
  have key: "?aw0 j \<noteq> ?test" if "j < ?C" for j
  proof -
    from that assms(2) have jE: "j < ?E" by simp
    with assms(3) have "- (10 ^ 10) \<le> gai s j" by simp
    moreover from jE have "0 < real ?E" by simp
    ultimately have "gai s j \<noteq> ?test" by linarith
    with jE show ?thesis by simp
  qed
  have pre: "\<forall>j < ?C. ElActive s j \<noteq> 0 \<and> ?aw0 j \<noteq> ?test \<and>
                    1 / 10 ^ 6 \<le> fst (gs_prefix s ?C (Suc j) (sa, sm, ss)) j"
    using assms(4,5) key by simp
  from rearrange_loop_in_order [where awi = "?aw0" and test = "?test" and jr = 0 and wi = "(sa, sm, ss)",
         OF assms(2) pre assms(1)]
  have "rearrange_loop s ?C ?test 0 ?aw0 (sa, sm, ss)
          = Some (s, (\<lambda>i. if i < ?C then ?test else ?aw0 i), gs_prefix s ?C ?C (sa, sm, ss))"
    by simp
  with sen have "vcs_elem_rearrange s aw sa sm ss =
      Inr (VCS_SUCCESS, s, (\<lambda>i. if i < ?C then ?test else ?aw0 i),
           gs_prefix s ?C ?C (sa, sm, ss))"
    by (simp add: vcs_elem_rearrange_def)
  then show ?thesis by blast
qed

theorem rearrange_keeps_order_witness:
  "\<exists>aw'. vcs_elem_rearrange ex_switch (\<lambda>_. 0) (\<lambda>_. 0) (\<lambda>_. 0) (\<lambda>_. 0) =
     Inr (VCS_SUCCESS, ex_switch, aw', gs_prefix ex_switch 2 2 (\<lambda>_. 0, \<lambda>_. 0, \<lambda>_. 0))"
proof -
  have C: "m_numComponents ex_switch = 2" and E: "m_numElemConstraints ex_switch = 2"
    by (simp_all add: ex_switch_def vcs_blank_def)
  have 1: "0 < m_numComponents ex_switch" by (simp add: C)
  have 2: "m_numComponents ex_switch \<le> m_numElemConstraints ex_switch" by (simp add: C E)
  have 3: "\<forall>i < m_numElemConstraints ex_switch. - (10 ^ 10) \<le> gai ex_switch i"
    by (simp add: ex_switch_def vcs_blank_def)
  have 4: "\<forall>j < m_numComponents ex_switch. ElActive ex_switch j \<noteq> 0"
    by (simp add: ex_switch_def vcs_blank_def)
  have 5: "\<forall>j < m_numComponents ex_switch.
           1 / 10 ^ 6 \<le> fst (gs_prefix ex_switch (m_numComponents ex_switch) (Suc j)
                              (\<lambda>_. 0, \<lambda>_. 0, \<lambda>_. 0)) j"
    by (simp add: C numeral_2_eq_2 All_less_Suc)
       (simp add: gs_defs ex_switch_def vcs_blank_def upt_0_1 upt_0_2 upt_1_2 Let_def
          power2_eq_square numeral_2_eq_2 [symmetric])
  from rearrange_keeps_order [OF 1 2 3 4 5, of "\<lambda>_. 0"] show ?thesis
    by (simp only: C)
qed

section \<open>The corrector and the sum of squared discrepancies: proofs\<close>





























end
